theory Spec2Isabelle
  imports Complex_Main
begin

text \<open>
  The globe scene renderer of the portfolio site, in its two variants: the uniform-random
  variant (600 nodes placed by \<open>Math.random\<close>, curved connections, long arcs, a frame
  updater that turns the node instances with the Earth) and the Fibonacci variant (1200
  nodes on a Fibonacci sphere in a rotating group, line segments, data arcs, a starfield
  with a cursor ripple). Each variant is embedded as its scene construction and its frame
  updater; the node count is a parameter of the model.
\<close>

section \<open>Numbers and vectors\<close>

text \<open>
  The globe renderer computes with JavaScript numbers. They are modelled as real numbers
  (rounding is left out); the one non-real value the code can produce from real inputs,
  NaN, is kept as a value of its own where the code can produce it: \<open>Math.acos\<close> outside
  \<open>[-1, 1]\<close> and the quotient \<open>0 / 0\<close>. Every comparison with NaN is false.
\<close>

datatype jsnum = Num real | NaN

definition js_acos :: "real \<Rightarrow> jsnum" where
  "js_acos x = (if -1 \<le> x \<and> x \<le> 1 then Num (arccos x) else NaN)"

fun js_sin :: "jsnum \<Rightarrow> jsnum" where
  "js_sin (Num a) = Num (sin a)"
| "js_sin NaN = NaN"

fun js_lt :: "jsnum \<Rightarrow> real \<Rightarrow> bool" where
  "js_lt (Num a) b = (a < b)"
| "js_lt NaN b = False"

fun js_gt :: "jsnum \<Rightarrow> real \<Rightarrow> bool" where
  "js_gt (Num a) b = (a > b)"
| "js_gt NaN b = False"

text \<open>\<open>THREE.Vector3\<close> and the methods of it that the renderer calls.\<close>

record vec3 =
  vx :: real
  vy :: real
  vz :: real

definition Vector3 :: "real \<Rightarrow> real \<Rightarrow> real \<Rightarrow> vec3" where
  "Vector3 x y z = \<lparr>vx = x, vy = y, vz = z\<rparr>"

definition dot :: "vec3 \<Rightarrow> vec3 \<Rightarrow> real" where
  "dot a b = vx a * vx b + vy a * vy b + vz a * vz b"

definition vlength :: "vec3 \<Rightarrow> real" where
  "vlength v = sqrt (vx v * vx v + vy v * vy v + vz v * vz v)"

definition distanceTo :: "vec3 \<Rightarrow> vec3 \<Rightarrow> real" where
  "distanceTo a b =
     (let dx = vx a - vx b; dy = vy a - vy b; dz = vz a - vz b
      in sqrt (dx * dx + dy * dy + dz * dz))"

definition multiplyScalar :: "vec3 \<Rightarrow> real \<Rightarrow> vec3" where
  "multiplyScalar v s = Vector3 (vx v * s) (vy v * s) (vz v * s)"

definition addScaledVector :: "vec3 \<Rightarrow> vec3 \<Rightarrow> real \<Rightarrow> vec3" where
  "addScaledVector v w s = Vector3 (vx v + vx w * s) (vy v + vy w * s) (vz v + vz w * s)"

text \<open>\<open>normalize\<close> is \<open>divideScalar(length() || 1)\<close>: the zero vector stays as it is.\<close>

definition normalize :: "vec3 \<Rightarrow> vec3" where
  "normalize v = multiplyScalar v (1 / (if vlength v = 0 then 1 else vlength v))"

definition lerp :: "vec3 \<Rightarrow> vec3 \<Rightarrow> real \<Rightarrow> vec3" where
  "lerp v w alpha =
     Vector3 (vx v + (vx w - vx v) * alpha) (vy v + (vy w - vy v) * alpha)
       (vz v + (vz w - vz v) * alpha)"

section \<open>Scene construction: node placement\<close>

text \<open>
  \<open>Math.random\<close> is a stream of draws \<open>rnd 0, rnd 1, ...\<close>; a builder takes the index of
  the next draw and returns the index after its last one. A draw lies in \<open>[0, 1)\<close>.
\<close>

type_synonym rng = "nat \<Rightarrow> real"

definition valid_rng :: "rng \<Rightarrow> bool" where
  "valid_rng rnd = (\<forall>n. 0 \<le> rnd n \<and> rnd n < 1)"

record node =
  basePosition :: vec3
  pulsePhase :: real
  pulseSpeed :: real
  index :: nat

text \<open>
  The uniform-random variant: one pass of the node loop of \<open>initEarth\<close>, four draws.
  The argument of \<open>Math.acos\<close> lies in \<open>[-1, 1)\<close> for a draw in \<open>[0, 1)\<close>, and in the
  Fibonacci variant for an index below the node count, so here it is the real arccosine.
\<close>

definition random_node :: "rng \<Rightarrow> nat \<Rightarrow> nat \<Rightarrow> node" where
  "random_node rnd c i =
     (let theta = rnd c * pi * 2;
          phi = arccos (rnd (c + 1) * 2 - 1);
          radius = 1.005;
          x = radius * sin phi * cos theta;
          y = radius * sin phi * sin theta;
          z = radius * cos phi
      in \<lparr>basePosition = Vector3 x y z,
          pulsePhase = rnd (c + 2) * pi * 2,
          pulseSpeed = 0.3 + rnd (c + 3) * 0.4,
          index = i\<rparr>)"

fun random_nodes :: "rng \<Rightarrow> nat \<Rightarrow> nat \<Rightarrow> nat \<Rightarrow> node list \<times> nat" where
  "random_nodes rnd c i 0 = ([], c)"
| "random_nodes rnd c i (Suc k) =
     (let nd = random_node rnd c i;
          (rest, c') = random_nodes rnd (c + 4) (Suc i) k
      in (nd # rest, c'))"

text \<open>The Fibonacci-sphere variant: no draw, the position is a function of the index.\<close>

definition fibonacci_node :: "nat \<Rightarrow> nat \<Rightarrow> vec3" where
  "fibonacci_node nodeCount i =
     (let phi = arccos (-1 + (2 * real i) / real nodeCount);
          theta = sqrt (real nodeCount * pi) * phi;
          r = 1.005;
          x = r * cos theta * sin phi;
          y = r * sin theta * sin phi;
          z = r * cos phi
      in Vector3 x y z)"

definition fibonacci_nodes :: "nat \<Rightarrow> vec3 list" where
  "fibonacci_nodes nodeCount = map (fibonacci_node nodeCount) [0..<nodeCount]"

section \<open>Great-circle interpolation\<close>

text \<open>
  A point of a curve is a vector, or the vector whose three components are NaN. With a NaN
  angle the weights \<open>a\<close> and \<open>b\<close> are NaN, so is every component of the sum, \<open>normalize\<close>
  divides by \<open>length() || 1 = 1\<close>, and the scaled point stays NaN.
\<close>

datatype point = Point vec3 | NaN_point

definition slerp_direction :: "vec3 \<Rightarrow> vec3 \<Rightarrow> real \<Rightarrow> real \<Rightarrow> vec3" where
  "slerp_direction pos1 pos2 angle t =
     (let sinAngle = sin angle;
          a = sin ((1 - t) * angle) / sinAngle;
          b = sin (t * angle) / sinAngle
      in normalize (addScaledVector (addScaledVector (Vector3 0 0 0) pos1 a) pos2 b))"

definition slerp_point :: "vec3 \<Rightarrow> vec3 \<Rightarrow> jsnum \<Rightarrow> real \<Rightarrow> real \<Rightarrow> point" where
  "slerp_point pos1 pos2 angle t mult =
     (case angle of
        Num th \<Rightarrow> Point (multiplyScalar (slerp_direction pos1 pos2 th t) mult)
      | NaN \<Rightarrow> NaN_point)"

text \<open>
  One pass of the interpolation loop at scene build: \<open>if (sinAngle < 0.001) continue\<close>,
  then the division. \<open>None\<close> is the skipped pass, \<open>Some\<close> the pass that divides and pushes.
\<close>

definition build_step :: "vec3 \<Rightarrow> vec3 \<Rightarrow> real \<Rightarrow> real \<Rightarrow> point option" where
  "build_step pos1 pos2 mult t =
     (let angle = js_acos (dot pos1 pos2);
          sinAngle = js_sin angle
      in if js_lt sinAngle 0.001 then None
         else Some (slerp_point pos1 pos2 angle t mult))"

text \<open>The same pass in the frame updater: the division sits under \<open>if (sinAngle > 0.001)\<close>.\<close>

definition frame_step :: "vec3 \<Rightarrow> vec3 \<Rightarrow> real \<Rightarrow> real \<Rightarrow> point option" where
  "frame_step pos1 pos2 mult t =
     (let angle = js_acos (dot pos1 pos2);
          sinAngle = js_sin angle
      in if js_gt sinAngle 0.001 then Some (slerp_point pos1 pos2 angle t mult)
         else None)"

text \<open>The loop \<open>for (k = 0; k <= steps; k++)\<close> with \<open>t = k / steps\<close>, pushing in order.\<close>

definition build_points :: "nat \<Rightarrow> real \<Rightarrow> vec3 \<Rightarrow> vec3 \<Rightarrow> point list" where
  "build_points steps mult pos1 pos2 =
     List.map_filter (\<lambda>k. build_step pos1 pos2 mult (real k / real steps)) [0..<Suc steps]"

definition frame_points :: "nat \<Rightarrow> real \<Rightarrow> vec3 \<Rightarrow> vec3 \<Rightarrow> point list" where
  "frame_points steps mult pos1 pos2 =
     List.map_filter (\<lambda>k. frame_step pos1 pos2 mult (real k / real steps)) [0..<Suc steps]"

section \<open>Uniform-random variant: connections and long arcs\<close>

datatype error = TypeError | ReferenceError

record connection =
  node1 :: nat
  node2 :: nat
  linePulsePhase :: real
  linePulseSpeed :: real
  isLongArc :: bool
  points :: "point list"
  opacity :: real

definition maxConnections :: nat where
  "maxConnections = 800"

text \<open>The body of \<open>if (distance < 0.5 && Math.random() > 0.85)\<close>: two more draws.\<close>

definition short_connection :: "rng \<Rightarrow> nat \<Rightarrow> nat \<Rightarrow> node \<Rightarrow> nat \<Rightarrow> node \<Rightarrow> connection" where
  "short_connection rnd c i n1 j n2 =
     \<lparr>node1 = i, node2 = j,
      linePulsePhase = rnd c * pi * 2,
      linePulseSpeed = 0.5 + rnd (c + 1) * 0.5,
      isLongArc = False,
      points = build_points 15 1.004 (basePosition n1) (basePosition n2),
      opacity = 0.6\<rparr>"

text \<open>
  The inner loop runs over the nodes after node \<open>i\<close>, each with its index; the state is the
  connections pushed so far, \<open>connectionCount\<close> and the index of the next draw. The draw of
  \<open>Math.random() > 0.85\<close> is made only when the distance test passed.
\<close>

fun connect_inner ::
  "rng \<Rightarrow> nat \<Rightarrow> node \<Rightarrow> (nat \<times> node) list \<Rightarrow> connection list \<times> nat \<times> nat
     \<Rightarrow> connection list \<times> nat \<times> nat" where
  "connect_inner rnd i n1 [] st = st"
| "connect_inner rnd i n1 ((j, n2) # rest) (conns, connectionCount, c) =
     (if connectionCount < maxConnections then
        (let distance = distanceTo (basePosition n1) (basePosition n2)
         in if distance < 0.5 then
              (if rnd c > 0.85 then
                 connect_inner rnd i n1 rest
                   (conns @ [short_connection rnd (c + 1) i n1 j n2], connectionCount + 1, c + 3)
               else connect_inner rnd i n1 rest (conns, connectionCount, c + 1))
            else connect_inner rnd i n1 rest (conns, connectionCount, c))
      else (conns, connectionCount, c))"

fun connect_outer ::
  "rng \<Rightarrow> (nat \<times> node) list \<Rightarrow> connection list \<times> nat \<times> nat
     \<Rightarrow> connection list \<times> nat \<times> nat" where
  "connect_outer rnd [] st = st"
| "connect_outer rnd ((i, n1) # rest) (conns, connectionCount, c) =
     (if connectionCount < maxConnections then
        connect_outer rnd rest (connect_inner rnd i n1 rest (conns, connectionCount, c))
      else (conns, connectionCount, c))"

definition connect_nodes :: "rng \<Rightarrow> node list \<Rightarrow> nat \<Rightarrow> connection list \<times> nat \<times> nat" where
  "connect_nodes rnd nodes c = connect_outer rnd (zip [0..<length nodes] nodes) ([], 0, c)"

text \<open>
  \<open>nodePositions[idx].basePosition\<close>: outside the array the element is \<open>undefined\<close> and the
  property read throws.
\<close>

definition node_at :: "node list \<Rightarrow> int \<Rightarrow> error + node" where
  "node_at nodes idx =
     (if 0 \<le> idx \<and> idx < int (length nodes) then Inr (nodes ! nat idx) else Inl TypeError)"

definition random_index :: "rng \<Rightarrow> nat \<Rightarrow> nat \<Rightarrow> int" where
  "random_index rnd c n = \<lfloor>rnd c * real n\<rfloor>"

text \<open>
  The resampling loop of a long arc,
  \<open>while (distance < 1.2 && attempts < 10) { idx2 = ...; attempts++ }\<close>.
  It returns the second index, the attempts made and the index of the next draw.
\<close>

function resample ::
  "rng \<Rightarrow> node list \<Rightarrow> node \<Rightarrow> int \<Rightarrow> nat \<Rightarrow> nat \<Rightarrow> error + (int \<times> nat \<times> nat)" where
  "resample rnd nodes n1 idx2 attempts c =
     (case node_at nodes idx2 of
        Inl e \<Rightarrow> Inl e
      | Inr n2 \<Rightarrow>
          if distanceTo (basePosition n1) (basePosition n2) < 1.2 \<and> attempts < 10 then
            resample rnd nodes n1 (random_index rnd c (length nodes)) (attempts + 1) (c + 1)
          else Inr (idx2, attempts, c))"
  by pat_completeness auto
termination
  by (relation "measure (\<lambda>(rnd, nodes, n1, idx2, attempts, c). 10 - attempts)") auto

declare resample.simps [simp del]

text \<open>One long arc, with the number of resampling attempts that were made for it.\<close>

definition long_arc :: "rng \<Rightarrow> node list \<Rightarrow> nat \<Rightarrow> error + (connection \<times> nat) \<times> nat" where
  "long_arc rnd nodes c =
     (let idx1 = random_index rnd c (length nodes);
          idx2 = random_index rnd (c + 1) (length nodes)
      in case node_at nodes idx1 of
           Inl e \<Rightarrow> Inl e
         | Inr n1 \<Rightarrow>
             (case resample rnd nodes n1 idx2 0 (c + 2) of
                Inl e \<Rightarrow> Inl e
              | Inr (idx2', attempts, c') \<Rightarrow>
                  (case node_at nodes idx2' of
                     Inl e \<Rightarrow> Inl e
                   | Inr n2 \<Rightarrow>
                       Inr ((\<lparr>node1 = nat idx1, node2 = nat idx2',
                              linePulsePhase = rnd c' * pi * 2,
                              linePulseSpeed = 0.3 + rnd (c' + 1) * 0.4,
                              isLongArc = True,
                              points = build_points 25 1.006 (basePosition n1) (basePosition n2),
                              opacity = 0.7\<rparr>, attempts), c' + 2))))"

fun long_arcs :: "rng \<Rightarrow> node list \<Rightarrow> nat \<Rightarrow> nat \<Rightarrow> error + (connection \<times> nat) list \<times> nat" where
  "long_arcs rnd nodes 0 c = Inr ([], c)"
| "long_arcs rnd nodes (Suc k) c =
     (case long_arc rnd nodes c of
        Inl e \<Rightarrow> Inl e
      | Inr (arc, c') \<Rightarrow>
          (case long_arcs rnd nodes k c' of
             Inl e \<Rightarrow> Inl e
           | Inr (rest, c'') \<Rightarrow> Inr (arc # rest, c'')))"

definition longArcCount :: nat where
  "longArcCount = 20"

section \<open>Uniform-random variant: the scene and its frame updater\<close>

text \<open>
  The scene state holds what the claims read: the frame counter, the time, the rotation and
  the material of the Earth mesh, the node data, the matrix of every node instance (its
  scale and its position), the emissive intensity of the node material and the connections.
  Flow lines, orbital rings, satellites and the starfield neither read nor write these
  fields and are left out.
\<close>

record material =
  color :: nat
  emissive :: nat
  has_map :: bool

record instance_matrix =
  scale :: real
  position :: vec3

record scene =
  frameCount :: nat
  time :: real
  earth_rotation_y :: real
  earth_material :: material
  positions :: "node list"
  instances :: "instance_matrix list"
  emissiveIntensity :: real
  connections :: "connection list"

text \<open>
  \<open>initEarth\<close>: the Earth material is \<open>#0a0f1a\<close> with emissive \<open>#000000\<close>; every instance
  matrix is the identity moved to the node position.
\<close>

definition initEarth :: "rng \<Rightarrow> nat \<Rightarrow> error + scene" where
  "initEarth rnd nodeCount =
     (let (nodePositions, c1) = random_nodes rnd 0 0 nodeCount;
          (short, connectionCount, c2) = connect_nodes rnd nodePositions c1
      in case long_arcs rnd nodePositions longArcCount c2 of
           Inl e \<Rightarrow> Inl e
         | Inr (arcs, c3) \<Rightarrow>
             Inr \<lparr>frameCount = 0, time = 0, earth_rotation_y = 0,
                  earth_material = \<lparr>color = 659226, emissive = 0, has_map = False\<rparr>,
                  positions = nodePositions,
                  instances = map (\<lambda>nd. \<lparr>scale = 1, position = basePosition nd\<rparr>) nodePositions,
                  emissiveIntensity = 1.5,
                  connections = short @ map fst arcs\<rparr>)"

text \<open>
  \<open>Vector3.applyAxisAngle\<close> of the graphics library: the quaternion of the axis and the
  angle, applied to the vector.
\<close>

definition applyAxisAngle :: "vec3 \<Rightarrow> vec3 \<Rightarrow> real \<Rightarrow> vec3" where
  "applyAxisAngle v axis angle =
     (let halfAngle = angle / 2; s = sin halfAngle;
          qx = vx axis * s; qy = vy axis * s; qz = vz axis * s; qw = cos halfAngle;
          tx = 2 * (qy * vz v - qz * vy v);
          ty = 2 * (qz * vx v - qx * vz v);
          tz = 2 * (qx * vy v - qy * vx v)
      in Vector3 (vx v + qw * tx + qy * tz - qz * ty)
                 (vy v + qw * ty + qz * tx - qx * tz)
                 (vz v + qw * tz + qx * ty - qy * tx))"

text \<open>The node pass of \<open>animate\<close>: the matrix of a node is rebuilt on every frame.\<close>

definition animate_node :: "bool \<Rightarrow> real \<Rightarrow> real \<Rightarrow> node \<Rightarrow> instance_matrix" where
  "animate_node updatePulse tm rot nodeData =
     (let pos = applyAxisAngle (basePosition nodeData) (Vector3 0 1 0) rot;
          pulse = (if updatePulse
                   then sin (tm * pulseSpeed nodeData + pulsePhase nodeData) * 0.4 + 0.6
                   else 1.0);
          scale = 0.01 * pulse
      in \<lparr>scale = scale, position = pos\<rparr>)"

definition pulse_connection :: "real \<Rightarrow> connection \<Rightarrow> connection" where
  "pulse_connection tm conn =
     (let pulseSpeed = (if linePulseSpeed conn = 0 then 0.8 else linePulseSpeed conn);
          pulse = sin (tm * pulseSpeed + linePulsePhase conn) * 0.25 + 0.6
      in conn\<lparr>opacity := pulse\<rparr>)"

text \<open>
  The curve pass: both endpoints are read from the node data by the stored indices (absent
  node data throws), turned by the current rotation, and the curve is interpolated anew.
\<close>

definition recompute_curve :: "node list \<Rightarrow> real \<Rightarrow> connection \<Rightarrow> error + connection" where
  "recompute_curve nodes rot conn =
     (case node_at nodes (int (node1 conn)) of
        Inl e \<Rightarrow> Inl e
      | Inr n1 \<Rightarrow>
          (case node_at nodes (int (node2 conn)) of
             Inl e \<Rightarrow> Inl e
           | Inr n2 \<Rightarrow>
               (let pos1 = applyAxisAngle (basePosition n1) (Vector3 0 1 0) rot;
                    pos2 = applyAxisAngle (basePosition n2) (Vector3 0 1 0) rot;
                    radiusMultiplier = (if isLongArc conn then 1.006 else 1.004)
                in Inr (conn\<lparr>points := frame_points 12 radiusMultiplier pos1 pos2\<rparr>))))"

fun recompute_curves :: "node list \<Rightarrow> real \<Rightarrow> connection list \<Rightarrow> error + connection list" where
  "recompute_curves nodes rot [] = Inr []"
| "recompute_curves nodes rot (conn # rest) =
     (case recompute_curve nodes rot conn of
        Inl e \<Rightarrow> Inl e
      | Inr conn' \<Rightarrow>
          (case recompute_curves nodes rot rest of
             Inl e \<Rightarrow> Inl e
           | Inr rest' \<Rightarrow> Inr (conn' # rest')))"

definition animate :: "scene \<Rightarrow> error + scene" where
  "animate s =
     (let frameCount' = frameCount s + 1;
          time' = time s + 0.01;
          rot = earth_rotation_y s + 0.002;
          updatePulse = (frameCount' mod 2 = 0);
          s1 = s\<lparr>frameCount := frameCount', time := time', earth_rotation_y := rot,
                 instances := map (animate_node updatePulse time' rot) (positions s),
                 emissiveIntensity :=
                   (if updatePulse then 1.5 * (sin (time' * 0.8) * 0.3 + 0.7)
                    else emissiveIntensity s)\<rparr>;
          s2 = (if frameCount' mod 2 = 0
                then s1\<lparr>connections := map (pulse_connection time') (connections s1)\<rparr>
                else s1)
      in if frameCount' mod 3 = 0 then
           (case recompute_curves (positions s2) rot (connections s2) of
              Inl e \<Rightarrow> Inl e
            | Inr conns \<Rightarrow> Inr (s2\<lparr>connections := conns\<rparr>))
         else Inr s2)"

text \<open>\<open>n\<close> calls of the frame updater, stopping at the first one that throws.\<close>

fun frames :: "nat \<Rightarrow> scene \<Rightarrow> error + scene" where
  "frames 0 s = Inr s"
| "frames (Suc n) s =
     (case animate s of
        Inl e \<Rightarrow> Inl e
      | Inr s' \<Rightarrow> frames n s')"

section \<open>Fibonacci variant: network lines and data arcs\<close>

text \<open>
  The remainder \<open>a % n\<close> of JavaScript on integers, for a positive \<open>n\<close>: it takes the sign
  of the dividend.
\<close>

definition js_rem :: "int \<Rightarrow> int \<Rightarrow> int" where
  "js_rem a n = (if 0 \<le> a then a mod n else - ((- a) mod n))"

text \<open>\<open>p1.distanceTo(nodePositions[idx])\<close> reads \<open>v.x\<close>: an index outside the array throws.\<close>

definition vec_at :: "vec3 list \<Rightarrow> int \<Rightarrow> error + vec3" where
  "vec_at ps idx =
     (if 0 \<le> idx \<and> idx < int (length ps) then Inr (ps ! nat idx) else Inl TypeError)"

text \<open>
  The scan of node \<open>i\<close>: at most 30 sampled neighbours, \<open>perNode\<close> counts the segments
  pushed for this node (the local \<open>connections\<close> of the source), and the scan breaks as
  soon as the count is above 4. A segment is the pair of points pushed to \<open>linePoints\<close>.
\<close>

fun scan_node ::
  "rng \<Rightarrow> vec3 list \<Rightarrow> nat \<Rightarrow> vec3 \<Rightarrow> nat \<Rightarrow> nat \<Rightarrow> nat \<Rightarrow> error + (vec3 \<times> vec3) list \<times> nat" where
  "scan_node rnd ps i p1 0 perNode c = Inr ([], c)"
| "scan_node rnd ps i p1 (Suc k) perNode c =
     (let nodeCount = int (length ps);
          idx = js_rem (int i + \<lfloor>rnd c * 200\<rfloor> - 100 + nodeCount) nodeCount
      in if int i = idx then scan_node rnd ps i p1 k perNode (c + 1)
         else
           (case vec_at ps idx of
              Inl e \<Rightarrow> Inl e
            | Inr p2 \<Rightarrow>
                (let dist = distanceTo p1 p2;
                     pushed = (if dist < 0.35 then [(p1, p2)] else []);
                     perNode' = (if dist < 0.35 then perNode + 1 else perNode)
                 in if perNode' > 4 then Inr (pushed, c + 1)
                    else
                      (case scan_node rnd ps i p1 k perNode' (c + 1) of
                         Inl e \<Rightarrow> Inl e
                       | Inr (rest, c') \<Rightarrow> Inr (pushed @ rest, c')))))"

text \<open>The outer loop over the nodes; the result keeps the segments of each node apart.\<close>

fun connect_close ::
  "rng \<Rightarrow> vec3 list \<Rightarrow> (nat \<times> vec3) list \<Rightarrow> nat \<Rightarrow> error + (vec3 \<times> vec3) list list \<times> nat" where
  "connect_close rnd ps [] c = Inr ([], c)"
| "connect_close rnd ps ((i, p1) # rest) c =
     (case scan_node rnd ps i p1 30 0 c of
        Inl e \<Rightarrow> Inl e
      | Inr (segs, c') \<Rightarrow>
          (case connect_close rnd ps rest c' of
             Inl e \<Rightarrow> Inl e
           | Inr (others, c'') \<Rightarrow> Inr (segs # others, c'')))"

record arc =
  phase :: real
  speed :: real
  arc_opacity :: real
  arc_points :: "vec3 list"

text \<open>
  \<open>createArc\<close>: the direction of a point is the normalised linear blend of the endpoints
  (\<open>angle\<close> is computed by the source and not used); the point is lifted by the height arc.
\<close>

definition arc_direction :: "vec3 \<Rightarrow> vec3 \<Rightarrow> real \<Rightarrow> vec3" where
  "arc_direction p1 p2 t = normalize (lerp p1 p2 t)"

definition createArc :: "rng \<Rightarrow> nat \<Rightarrow> vec3 \<Rightarrow> vec3 \<Rightarrow> real \<Rightarrow> arc" where
  "createArc rnd c p1 p2 altitude =
     \<lparr>phase = rnd c * pi * 2,
      speed = 0.002 + rnd (c + 1) * 0.003,
      arc_opacity = 0.0,
      arc_points =
        map (\<lambda>i. let t = real i / 40;
                     v = arc_direction p1 p2 t;
                     height = 1.0 + altitude * sin (t * pi)
                 in multiplyScalar v height) [0..<41]\<rparr>"

text \<open>
  The arc loop: two indices are drawn once, and an arc is made only for two different
  nodes more than 1.0 apart. Each arc is returned with the two indices it was made from.
\<close>

fun data_arcs ::
  "rng \<Rightarrow> vec3 list \<Rightarrow> nat \<Rightarrow> nat \<Rightarrow> error + (arc \<times> nat \<times> nat) list \<times> nat" where
  "data_arcs rnd ps 0 c = Inr ([], c)"
| "data_arcs rnd ps (Suc k) c =
     (let i1 = random_index rnd c (length ps);
          i2 = random_index rnd (c + 1) (length ps)
      in if i1 \<noteq> i2 then
           (case vec_at ps i1 of
              Inl e \<Rightarrow> Inl e
            | Inr v1 \<Rightarrow>
                (case vec_at ps i2 of
                   Inl e \<Rightarrow> Inl e
                 | Inr v2 \<Rightarrow>
                     (let dist = distanceTo v1 v2
                      in if dist > 1.0 then
                           (case data_arcs rnd ps k (c + 4) of
                              Inl e \<Rightarrow> Inl e
                            | Inr (rest, c') \<Rightarrow>
                                Inr ((createArc rnd (c + 2) v1 v2 (0.1 + dist * 0.2),
                                      nat i1, nat i2) # rest, c'))
                         else data_arcs rnd ps k (c + 2))))
         else data_arcs rnd ps k (c + 2))"

definition arcCount :: nat where
  "arcCount = 30"

section \<open>Fibonacci variant: the starfield, the scene and its frame updater\<close>

text \<open>
  The arrays \<open>starsInitialPositions\<close>, \<open>starVelocities\<close> and the position buffer are read
  and written at the same index only; a star is the three entries of one index. The
  velocity and the buffered \<open>x\<close> and \<open>y\<close> are the numbers the ripple can turn into NaN.
\<close>

record star =
  initX :: real
  initY :: real
  initZ :: real
  velX :: jsnum
  velY :: jsnum
  posX :: jsnum
  posY :: jsnum
  posZ :: real

definition make_star :: "rng \<Rightarrow> nat \<Rightarrow> star" where
  "make_star rnd c =
     (let x = (rnd c - 0.5) * 25;
          y = (rnd (c + 1) - 0.5) * 25;
          z = (rnd (c + 2) - 0.5) * 10 - 5
      in \<lparr>initX = x, initY = y, initZ = z, velX = Num 0, velY = Num 0,
          posX = Num x, posY = Num y, posZ = z\<rparr>)"

fun make_stars :: "rng \<Rightarrow> nat \<Rightarrow> nat \<Rightarrow> star list" where
  "make_stars rnd c 0 = []"
| "make_stars rnd c (Suc k) = make_star rnd c # make_stars rnd (c + 3) k"

definition starCount :: nat where
  "starCount = 1500"

record globe =
  globe_time :: real
  targetRotationY :: real
  rotation_x :: real
  rotation_y :: real
  mouseX :: real
  mouseY :: real
  windowHalfX :: real
  windowHalfY :: real
  nodePositions :: "vec3 list"
  linePoints :: "(vec3 \<times> vec3) list"
  lineOpacity :: real
  arcLines :: "arc list"
  stars :: "star list"

text \<open>
  \<open>initEarth\<close> of the Fibonacci variant, for a node count and the half sizes of the
  window. The group rotation starts at zero and the pointer offsets at zero.
\<close>

definition initEarth_fibonacci :: "rng \<Rightarrow> nat \<Rightarrow> real \<Rightarrow> real \<Rightarrow> error + globe" where
  "initEarth_fibonacci rnd nodeCount halfX halfY =
     (let ps = fibonacci_nodes nodeCount
      in case connect_close rnd ps (zip [0..<nodeCount] ps) 0 of
           Inl e \<Rightarrow> Inl e
         | Inr (segs, c1) \<Rightarrow>
             (case data_arcs rnd ps arcCount c1 of
                Inl e \<Rightarrow> Inl e
              | Inr (arcs, c2) \<Rightarrow>
                  Inr \<lparr>globe_time = 0, targetRotationY = 0, rotation_x = 0, rotation_y = 0,
                       mouseX = 0, mouseY = 0, windowHalfX = halfX, windowHalfY = halfY,
                       nodePositions = ps, linePoints = concat segs, lineOpacity = 0.15,
                       arcLines = map fst arcs, stars = make_stars rnd c2 starCount\<rparr>))"

text \<open>The \<open>mousemove\<close> listener.\<close>

definition mousemove :: "real \<Rightarrow> real \<Rightarrow> globe \<Rightarrow> globe" where
  "mousemove clientX clientY g =
     g\<lparr>mouseX := (clientX - windowHalfX g) * 0.001,
       mouseY := (clientY - windowHalfY g) * 0.001\<rparr>"

text \<open>Arithmetic on numbers that may be NaN: NaN absorbs.\<close>

fun js_add :: "jsnum \<Rightarrow> jsnum \<Rightarrow> jsnum" where
  "js_add (Num a) (Num b) = Num (a + b)"
| "js_add _ _ = NaN"

fun js_sub :: "jsnum \<Rightarrow> jsnum \<Rightarrow> jsnum" where
  "js_sub (Num a) (Num b) = Num (a - b)"
| "js_sub _ _ = NaN"

fun js_mul :: "jsnum \<Rightarrow> jsnum \<Rightarrow> jsnum" where
  "js_mul (Num a) (Num b) = Num (a * b)"
| "js_mul _ _ = NaN"

text \<open>
  The quotients \<open>dx / dist\<close> and \<open>dy / dist\<close> of the ripple. The divisor
  \<open>dist = sqrt(dx * dx + dy * dy)\<close> is zero only when \<open>dx\<close> and \<open>dy\<close> are zero, so a
  zero divisor meets a zero dividend, and \<open>0 / 0\<close> is NaN.
\<close>

definition ripple_quotient :: "real \<Rightarrow> real \<Rightarrow> jsnum" where
  "ripple_quotient d divisor = (if divisor = 0 then NaN else Num (d / divisor))"

text \<open>The body of the star loop of \<open>animate\<close>, for the cursor mapped to world space.\<close>

definition ripple_star :: "real \<Rightarrow> real \<Rightarrow> star \<Rightarrow> star" where
  "ripple_star cursorWorldX cursorWorldY st =
     (let px = initX st; py = initY st;
          dx = cursorWorldX - px; dy = cursorWorldY - py;
          dist = sqrt (dx * dx + dy * dy);
          force = (3.0 - dist) * 0.02;
          vx1 = (if dist < 3.0 then js_sub (velX st) (js_mul (ripple_quotient dx dist) (Num force))
                 else velX st);
          vy1 = (if dist < 3.0 then js_sub (velY st) (js_mul (ripple_quotient dy dist) (Num force))
                 else velY st);
          vx2 = js_mul vx1 (Num 0.95);
          vy2 = js_mul vy1 (Num 0.95);
          currentX = posX st; currentY = posY st
      in st\<lparr>velX := vx2, velY := vy2,
            posX := js_add (posX st) (js_add vx2 (js_mul (js_sub (Num (initX st)) currentX) (Num 0.02))),
            posY := js_add (posY st) (js_add vy2 (js_mul (js_sub (Num (initY st)) currentY) (Num 0.02)))\<rparr>)"

definition animate_fibonacci :: "globe \<Rightarrow> globe" where
  "animate_fibonacci g =
     (let time' = globe_time g + 0.005;
          ry1 = rotation_y g + 0.0008;
          ry2 = ry1 + mouseX g * 0.08;
          rx = rotation_x g + (mouseY g * 0.05 - rotation_x g) * 0.05;
          cursorWorldX = mouseX g * 15;
          cursorWorldY = - mouseY g * 10
      in g\<lparr>globe_time := time',
            targetRotationY := targetRotationY g + 0.0005,
            rotation_y := ry2,
            rotation_x := rx,
            arcLines := map (\<lambda>line. line\<lparr>arc_opacity := max 0 (sin (time' * 5 + phase line))\<rparr>)
                          (arcLines g),
            lineOpacity := 0.15 + sin (time' * 2) * 0.05,
            stars := map (ripple_star cursorWorldX cursorWorldY) (stars g)\<rparr>)"

text \<open>
  The nodes are children of the rotating group: a node is drawn at its stored position
  turned by the group's rotation, about the y-axis and then about the x-axis (the Euler
  order XYZ of the library with a zero z-angle).
\<close>

definition rotate_y :: "real \<Rightarrow> vec3 \<Rightarrow> vec3" where
  "rotate_y a v = Vector3 (cos a * vx v + sin a * vz v) (vy v) (cos a * vz v - sin a * vx v)"

definition rotate_x :: "real \<Rightarrow> vec3 \<Rightarrow> vec3" where
  "rotate_x a v = Vector3 (vx v) (cos a * vy v - sin a * vz v) (sin a * vy v + cos a * vz v)"

definition displayed :: "globe \<Rightarrow> vec3 \<Rightarrow> vec3" where
  "displayed g p = rotate_x (rotation_x g) (rotate_y (rotation_y g) p)"

section \<open>The texture callbacks\<close>

text \<open>
  \<open>loadEarthTexture\<close> is the same text in both variants; its callbacks read the
  identifier \<open>earth\<close> in the scope of the module. The scope is a map from the names
  declared at the top level of the file to their values; reading a name that is not
  declared throws a ReferenceError.
\<close>

datatype jsval = Undefined | Mesh material | Other

definition top_level_random :: "string list" where
  "top_level_random =
     [''scene'', ''camera'', ''renderer'', ''dataNodes'', ''connections'', ''flowLines'',
      ''orbitalRings'', ''time'', ''initEarth'', ''cursorDotsContainer'', ''cursorDot'',
      ''dots'', ''dotCount'', ''mouseXPos'', ''mouseYPos'', ''dotXPos'', ''dotYPos'',
      ''animateCursor'', ''interactiveElements'', ''textElements'', ''navbar'', ''navLinks'',
      ''hamburger'', ''navLinksContainer'', ''sections'', ''setActiveNavLink'', ''typingText'',
      ''typingWords'', ''wordIndex'', ''charIndex'', ''isDeleting'', ''typeEffect'',
      ''statNumbers'', ''animateCounter'', ''statsObserver'', ''contactForm'', ''ticking'',
      ''updateOnScroll'', ''loadEarthTexture'']"

definition top_level_fibonacci :: "string list" where
  "top_level_fibonacci =
     [''scene'', ''camera'', ''renderer'', ''earthGroup'', ''time'', ''initEarth'',
      ''cursorDotsContainer'', ''cursorDot'',
      ''dots'', ''dotCount'', ''mouseXPos'', ''mouseYPos'', ''dotXPos'', ''dotYPos'',
      ''animateCursor'', ''interactiveElements'', ''textElements'', ''navbar'', ''navLinks'',
      ''hamburger'', ''navLinksContainer'', ''sections'', ''setActiveNavLink'', ''typingText'',
      ''typingWords'', ''wordIndex'', ''charIndex'', ''isDeleting'', ''typeEffect'',
      ''statNumbers'', ''animateCounter'', ''statsObserver'', ''contactForm'', ''ticking'',
      ''updateOnScroll'', ''loadEarthTexture'']"

text \<open>
  The scope of the uniform-random variant declares \<open>earth\<close>: undefined until \<open>initEarth\<close>
  has run, the Earth mesh with its material afterwards. The scope of the Fibonacci variant
  has no such name: its mesh is the local \<open>earthMesh\<close> of \<open>initEarth\<close>.
\<close>

definition scope_random :: "scene option \<Rightarrow> (string \<rightharpoonup> jsval)" where
  "scope_random built =
     (map_of (map (\<lambda>n. (n, Other)) top_level_random))
       (''earth'' \<mapsto> (case built of None \<Rightarrow> Undefined | Some s \<Rightarrow> Mesh (earth_material s)))"

definition scope_fibonacci :: "string \<rightharpoonup> jsval" where
  "scope_fibonacci = map_of (map (\<lambda>n. (n, Other)) top_level_fibonacci)"

text \<open>
  The error callback: \<open>if (earth && earth.material) { color.setHex(0x2233ff);
  emissive.setHex(0x112244) }\<close>. The two colours are 2241535 and 1122884.
\<close>

definition on_texture_error :: "(string \<rightharpoonup> jsval) \<Rightarrow> error + (string \<rightharpoonup> jsval)" where
  "on_texture_error scope =
     (case scope ''earth'' of
        None \<Rightarrow> Inl ReferenceError
      | Some Undefined \<Rightarrow> Inr scope
      | Some Other \<Rightarrow> Inr scope
      | Some (Mesh m) \<Rightarrow>
          Inr (scope(''earth'' \<mapsto> Mesh (m\<lparr>color := 2241535, emissive := 1122884\<rparr>))))"

section \<open>Invariants of the construction loops\<close>

text \<open>What holds of a short connection, and of the state of the two connection loops.\<close>

definition short_ok :: "node list \<Rightarrow> connection \<Rightarrow> bool" where
  "short_ok nodes conn \<longleftrightarrow>
     node1 conn < node2 conn \<and> node2 conn < length nodes \<and>
     distanceTo (basePosition (nodes ! node1 conn)) (basePosition (nodes ! node2 conn)) < 0.5"

definition short_inv :: "node list \<Rightarrow> connection list \<times> nat \<times> nat \<Rightarrow> bool" where
  "short_inv nodes st \<longleftrightarrow>
     (case st of (conns, connectionCount, c) \<Rightarrow>
        connectionCount \<le> maxConnections \<and> length conns = connectionCount \<and>
        (\<forall>conn \<in> set conns. short_ok nodes conn))"

text \<open>What holds of a long arc with its attempts, and of a data arc with its indices.\<close>

definition long_ok :: "node list \<Rightarrow> connection \<times> nat \<Rightarrow> bool" where
  "long_ok nodes a \<longleftrightarrow>
     (case a of (conn, attempts) \<Rightarrow>
        isLongArc conn \<and> node1 conn < length nodes \<and> node2 conn < length nodes \<and>
        attempts \<le> 10 \<and>
        (1.2 \<le> distanceTo (basePosition (nodes ! node1 conn)) (basePosition (nodes ! node2 conn))
         \<or> attempts = 10))"

definition data_ok :: "vec3 list \<Rightarrow> arc \<times> nat \<times> nat \<Rightarrow> bool" where
  "data_ok ps a \<longleftrightarrow>
     (case a of (line, i1, i2) \<Rightarrow>
        i1 \<noteq> i2 \<and> i1 < length ps \<and> i2 < length ps \<and> 1.0 < distanceTo (ps ! i1) (ps ! i2))"

section \<open>Sample inputs\<close>

text \<open>Two points of the sphere of radius 1.005 that are about 0.284 apart.\<close>

definition near1 :: vec3 where
  "near1 = Vector3 1.005 0 0"

definition near2 :: vec3 where
  "near2 = Vector3 0.9648 0.2814 0"

definition sample_node :: "vec3 \<Rightarrow> nat \<Rightarrow> node" where
  "sample_node p i = \<lparr>basePosition = p, pulsePhase = 0, pulseSpeed = 0.3, index = i\<rparr>"

text \<open>
  Draws that place the second node very near the first one, and draws that place it at
  chord distance 1.2 from the first one and then pick the two nodes for a long arc.
\<close>

definition near_draws :: rng where
  "near_draws n = (if n = 5 then 1 / 1000 else 0)"

definition boundary_draws :: rng where
  "boundary_draws n = (if n = 5 then 1600 / 4489 else if n = 9 then 1 / 2 else 0)"

definition boundary_nodes :: "node list" where
  "boundary_nodes = fst (random_nodes boundary_draws 0 0 2)"

text \<open>A stream that passes the test \<open>Math.random() > 0.85\<close> and samples the next node.\<close>

definition sample_draws :: rng where
  "sample_draws n = 0.905"

text \<open>Two antipodal points of the sphere of radius 1.005.\<close>

definition far1 :: vec3 where
  "far1 = Vector3 0 0 1.005"

definition far2 :: vec3 where
  "far2 = Vector3 0 0 (- 1.005)"

text \<open>The long arc that the draws \<open>boundary_draws\<close> make between the two nodes they place.\<close>

definition boundary_arc :: connection where
  "boundary_arc =
     \<lparr>node1 = 0, node2 = 1, linePulsePhase = 0, linePulseSpeed = 0.3, isLongArc = True,
      points = build_points 25 1.006 (basePosition (boundary_nodes ! 0))
                 (basePosition (boundary_nodes ! 1)),
      opacity = 0.7\<rparr>"

text \<open>
  A scene is well formed when the endpoints of every connection are nodes; this is what
  the curve pass of the frame updater reads. The stream of draws that are all zero.
\<close>

definition scene_wf :: "scene \<Rightarrow> bool" where
  "scene_wf s \<longleftrightarrow>
     (\<forall>conn \<in> set (connections s).
        node1 conn < length (positions s) \<and> node2 conn < length (positions s))"

definition zero_draws :: rng where
  "zero_draws n = 0"

text \<open>An angle reduced modulo \<open>2 pi\<close>, into \<open>[0, 2 pi)\<close>.\<close>

definition mod_2pi :: "real \<Rightarrow> real" where
  "mod_2pi x = x - 2 * pi * of_int \<lfloor>x / (2 * pi)\<rfloor>"

text \<open>
  What the page does after the scene is built: frames and pointer moves, in any order.
\<close>

datatype event = Frame | Move real real

fun run :: "event list \<Rightarrow> globe \<Rightarrow> globe" where
  "run [] g = g"
| "run (Frame # es) g = run es (animate_fibonacci g)"
| "run (Move clientX clientY # es) g = run es (mousemove clientX clientY g)"

text \<open>A star whose velocity and buffered position are NaN; the stream of draws 1/2.\<close>

definition nan_star :: "star \<Rightarrow> bool" where
  "nan_star st \<longleftrightarrow> velX st = NaN \<and> velY st = NaN \<and> posX st = NaN \<and> posY st = NaN"

definition half_draws :: rng where
  "half_draws n = 1 / 2"

text \<open>Draws that place the second node a quarter turn from the first one.\<close>

definition orthogonal_draws :: rng where
  "orthogonal_draws n = (if n = 5 then 1 / 2 else 0)"

text \<open>
  Draws that make the scan of node 0 sample node 1 five times (offset 101 - 100), and the
  later scans sample the node before (offset 99 - 100).
\<close>

definition degree_draws :: rng where
  "degree_draws n = (if n < 5 then 101 / 200 else 99 / 200)"

section \<open>Node positions lie on the sphere of radius 1.005\<close>

lemma vlength_Vector3: "vlength (Vector3 x y z) = sqrt (x * x + y * y + z * z)"
  by (simp add: vlength_def Vector3_def)

lemma spherical_sq:
  "(r * sin p * cos t) * (r * sin p * cos t) + (r * sin p * sin t) * (r * sin p * sin t)
     + (r * cos p) * (r * cos p) = r\<^sup>2" for r :: real
proof -
  have "(r * sin p * cos t) * (r * sin p * cos t) + (r * sin p * sin t) * (r * sin p * sin t)
     + (r * cos p) * (r * cos p)
     = r\<^sup>2 * ((sin p)\<^sup>2 * ((cos t)\<^sup>2 + (sin t)\<^sup>2) + (cos p)\<^sup>2)"
    by (simp only: power2_eq_square) algebra
  also have "\<dots> = r\<^sup>2"
    by simp
  finally show ?thesis .
qed

lemma spherical_sq':
  "(r * cos t * sin p) * (r * cos t * sin p) + (r * sin t * sin p) * (r * sin t * sin p)
     + (r * cos p) * (r * cos p) = r\<^sup>2" for r :: real
proof -
  have "(r * cos t * sin p) * (r * cos t * sin p) + (r * sin t * sin p) * (r * sin t * sin p)
     + (r * cos p) * (r * cos p)
     = r\<^sup>2 * ((sin p)\<^sup>2 * ((cos t)\<^sup>2 + (sin t)\<^sup>2) + (cos p)\<^sup>2)"
    by (simp only: power2_eq_square) algebra
  also have "\<dots> = r\<^sup>2"
    by simp
  finally show ?thesis .
qed

lemma random_node_radius: "vlength (basePosition (random_node rnd c i)) = 1.005"
proof -
  have "vlength (basePosition (random_node rnd c i)) = sqrt ((1.005::real)\<^sup>2)"
    unfolding random_node_def Let_def vlength_Vector3 node.select_convs spherical_sq ..
  then show ?thesis by simp
qed

lemma fibonacci_node_radius: "vlength (fibonacci_node n i) = 1.005"
proof -
  have "vlength (fibonacci_node n i) = sqrt ((1.005::real)\<^sup>2)"
    unfolding fibonacci_node_def Let_def vlength_Vector3 spherical_sq' ..
  then show ?thesis by simp
qed

lemma random_nodes_radius:
  "nd \<in> set (fst (random_nodes rnd c i k)) \<Longrightarrow> vlength (basePosition nd) = 1.005"
proof (induction k arbitrary: c i)
  case 0
  then show ?case by simp
next
  case (Suc k)
  obtain rest c' where r: "random_nodes rnd (c + 4) (Suc i) k = (rest, c')"
    by fastforce
  from Suc.prems r have "nd = random_node rnd c i \<or> nd \<in> set rest"
    by (simp add: Let_def)
  then show ?case
  proof
    assume "nd = random_node rnd c i"
    then show ?thesis by (simp only: random_node_radius)
  next
    assume "nd \<in> set rest"
    then have "nd \<in> set (fst (random_nodes rnd (c + 4) (Suc i) k))"
      by (simp add: r)
    then show ?thesis by (rule Suc.IH)
  qed
qed

text \<open>
  C1. Every node position generated at scene construction has Euclidean norm 1.005, the
  intended radius: in the uniform-random variant whatever the draws are, and in the
  Fibonacci-sphere variant for every node count.
\<close>

theorem node_positions_on_sphere:
  "(nd \<in> set (fst (random_nodes rnd c i k)) \<longrightarrow> vlength (basePosition nd) = 1.005) \<and>
   (p \<in> set (fibonacci_nodes n) \<longrightarrow> vlength p = 1.005)"
proof (intro conjI impI)
  assume "nd \<in> set (fst (random_nodes rnd c i k))"
  then show "vlength (basePosition nd) = 1.005"
    by (rule random_nodes_radius)
next
  assume "p \<in> set (fibonacci_nodes n)"
  then obtain j where "p = fibonacci_node n j"
    by (auto simp: fibonacci_nodes_def)
  then show "vlength p = 1.005"
    by (simp only: fibonacci_node_radius)
qed

theorem node_positions_on_sphere_witness:
  "random_node half_draws 0 0 \<in> set (fst (random_nodes half_draws 0 0 (Suc 0))) \<and>
   vlength (basePosition (random_node half_draws 0 0)) = 1.005 \<and>
   fibonacci_node 2 1 \<in> set (fibonacci_nodes 2) \<and>
   vlength (fibonacci_node 2 1) = 1.005"
  using node_positions_on_sphere [of "random_node half_draws 0 0" half_draws 0 0 "Suc 0"
      "fibonacci_node 2 1" 2]
  by (simp add: fibonacci_nodes_def Let_def upt_rec)

section \<open>Vector facts\<close>

lemma vlength_sq: "(vlength v)\<^sup>2 = vx v * vx v + vy v * vy v + vz v * vz v"
proof -
  have "0 \<le> vx v * vx v + vy v * vy v + vz v * vz v"
    by (simp add: add_nonneg_nonneg)
  then show ?thesis by (simp add: vlength_def)
qed

lemma vlength_normalize: "vlength v \<noteq> 0 \<Longrightarrow> vlength (normalize v) = 1"
proof -
  assume nz: "vlength v \<noteq> 0"
  define L where "L = vlength v"
  have L: "L \<noteq> 0" using nz by (simp add: L_def)
  have n: "normalize v = Vector3 (vx v / L) (vy v / L) (vz v / L)"
    using nz by (simp add: normalize_def multiplyScalar_def L_def)
  have "(vlength (normalize v))\<^sup>2 = (vx v * vx v + vy v * vy v + vz v * vz v) / L\<^sup>2"
    unfolding vlength_sq n
    by (simp add: Vector3_def power2_eq_square add_divide_distrib)
  also have "\<dots> = L\<^sup>2 / L\<^sup>2"
    by (simp only: L_def vlength_sq)
  also have "\<dots> = 1" using L by simp
  finally have "(vlength (normalize v))\<^sup>2 = 1" .
  moreover have "0 \<le> vlength (normalize v)" by (simp add: vlength_def)
  ultimately show ?thesis
    by (simp add: power2_eq_1_iff)
qed

lemma len_sq: "vlength v = r \<Longrightarrow> vx v * vx v + vy v * vy v + vz v * vz v = r\<^sup>2"
  using vlength_sq [of v] by simp

lemma dot_bounds:
  assumes "vlength p = r" and "vlength q = r"
  shows "- (r\<^sup>2) \<le> dot p q" and "dot p q \<le> r\<^sup>2"
proof -
  have p: "vx p * vx p + vy p * vy p + vz p * vz p = r\<^sup>2" using assms(1) by (rule len_sq)
  have q: "vx q * vx q + vy q * vy q + vz q * vz q = r\<^sup>2" using assms(2) by (rule len_sq)
  have "0 \<le> (vx p + vx q)\<^sup>2 + (vy p + vy q)\<^sup>2 + (vz p + vz q)\<^sup>2" by simp
  also have "\<dots> = 2 * r\<^sup>2 + 2 * dot p q"
    using p q by (simp add: dot_def power2_eq_square algebra_simps)
  finally show "- (r\<^sup>2) \<le> dot p q" by simp
  have "0 \<le> (vx p - vx q)\<^sup>2 + (vy p - vy q)\<^sup>2 + (vz p - vz q)\<^sup>2" by simp
  also have "\<dots> = 2 * r\<^sup>2 - 2 * dot p q"
    using p q by (simp add: dot_def power2_eq_square algebra_simps)
  finally show "dot p q \<le> r\<^sup>2" by simp
qed

lemma combination_len:
  assumes p: "vlength p = r" and q: "vlength q = r"
  shows "(vlength (addScaledVector (addScaledVector (Vector3 0 0 0) p a) q b))\<^sup>2
           = r\<^sup>2 * (a\<^sup>2 + b\<^sup>2) + 2 * (a * b * dot p q)"
proof -
  have p': "vx p * vx p + vy p * vy p + vz p * vz p = r\<^sup>2" using p by (rule len_sq)
  have q': "vx q * vx q + vy q * vy q + vz q * vz q = r\<^sup>2" using q by (rule len_sq)
  have "(vlength (addScaledVector (addScaledVector (Vector3 0 0 0) p a) q b))\<^sup>2
      = a\<^sup>2 * (vx p * vx p + vy p * vy p + vz p * vz p)
        + b\<^sup>2 * (vx q * vx q + vy q * vy q + vz q * vz q) + 2 * (a * b * dot p q)"
    unfolding vlength_sq
    by (simp add: addScaledVector_def Vector3_def dot_def power2_eq_square algebra_simps)
  then show ?thesis by (simp only: p' q') (simp add: algebra_simps)
qed

text \<open>
  A combination of two vectors of the same length above 1 whose dot product lies in
  \<open>[-1, 1]\<close> is the zero vector only when both weights are zero.
\<close>

lemma combination_nonzero:
  assumes p: "vlength p = r" and q: "vlength q = r" and r: "1 < r"
    and d: "- 1 \<le> dot p q" "dot p q \<le> 1" and w: "a \<noteq> 0 \<or> b \<noteq> 0"
  shows "vlength (addScaledVector (addScaledVector (Vector3 0 0 0) p a) q b) \<noteq> 0"
proof -
  let ?v = "addScaledVector (addScaledVector (Vector3 0 0 0) p a) q b"
  have "\<bar>dot p q\<bar> \<le> 1" using d by (simp add: abs_le_iff)
  then have "\<bar>a * b\<bar> * \<bar>dot p q\<bar> \<le> \<bar>a * b\<bar> * 1"
    by (intro mult_left_mono) simp_all
  then have "\<bar>a * b * dot p q\<bar> \<le> \<bar>a\<bar> * \<bar>b\<bar>"
    by (simp add: abs_mult)
  then have l: "- (\<bar>a\<bar> * \<bar>b\<bar>) \<le> a * b * dot p q"
    by (simp add: abs_le_iff)
  have sq: "a\<^sup>2 + b\<^sup>2 - 2 * (\<bar>a\<bar> * \<bar>b\<bar>) = (\<bar>a\<bar> - \<bar>b\<bar>)\<^sup>2"
    by (simp add: power2_eq_square algebra_simps)
  have pos: "0 < a\<^sup>2 + b\<^sup>2"
    using w by (auto intro: add_pos_nonneg add_nonneg_pos)
  have "1 * 1 < r * r" using r by (intro mult_strict_mono) simp_all
  then have "1 < r\<^sup>2" by (simp add: power2_eq_square)
  then have "0 < (r\<^sup>2 - 1) * (a\<^sup>2 + b\<^sup>2)" using pos by simp
  also have "\<dots> \<le> (r\<^sup>2 - 1) * (a\<^sup>2 + b\<^sup>2) + (\<bar>a\<bar> - \<bar>b\<bar>)\<^sup>2" by simp
  also have "\<dots> = r\<^sup>2 * (a\<^sup>2 + b\<^sup>2) - 2 * (\<bar>a\<bar> * \<bar>b\<bar>)"
    by (simp only: sq [symmetric]) (simp add: algebra_simps)
  also have "\<dots> \<le> r\<^sup>2 * (a\<^sup>2 + b\<^sup>2) + 2 * (a * b * dot p q)"
    using l by simp
  also have "\<dots> = (vlength ?v)\<^sup>2"
    by (simp only: combination_len [OF p q])
  finally have "0 < (vlength ?v)\<^sup>2" .
  then show ?thesis by simp
qed

lemma normalize_length:
  assumes "vlength v = r" and "0 < r"
  shows "normalize v = multiplyScalar v (1 / r)"
  using assms by (simp add: normalize_def)

lemma vlength_multiplyScalar:
  "vlength (multiplyScalar v s) = \<bar>s\<bar> * vlength v"
proof -
  have "(vx v * s) * (vx v * s) + (vy v * s) * (vy v * s) + (vz v * s) * (vz v * s)
      = s\<^sup>2 * (vx v * vx v + vy v * vy v + vz v * vz v)"
    by (simp add: power2_eq_square algebra_simps)
  then show ?thesis
    by (simp add: vlength_def multiplyScalar_def Vector3_def real_sqrt_mult)
qed

lemma combination_first: "addScaledVector (addScaledVector (Vector3 0 0 0) p 1) q 0 = p"
  by (simp add: addScaledVector_def Vector3_def)

lemma combination_second: "addScaledVector (addScaledVector (Vector3 0 0 0) p 0) q 1 = q"
  by (simp add: addScaledVector_def Vector3_def)

lemma distance_sq:
  assumes p: "vlength p = r" and q: "vlength q = r"
  shows "(distanceTo p q)\<^sup>2 = 2 * r\<^sup>2 - 2 * dot p q"
proof -
  have "(distanceTo p q)\<^sup>2 =
      (vx p - vx q) * (vx p - vx q) + (vy p - vy q) * (vy p - vy q)
        + (vz p - vz q) * (vz p - vz q)"
    by (simp add: distanceTo_def Let_def)
  also have "\<dots> = (vx p * vx p + vy p * vy p + vz p * vz p)
      + (vx q * vx q + vy q * vy q + vz q * vz q) - 2 * dot p q"
    by (simp add: dot_def algebra_simps)
  also have "\<dots> = 2 * r\<^sup>2 - 2 * dot p q"
    by (simp only: len_sq [OF p] len_sq [OF q])
  finally show ?thesis .
qed

lemma fibonacci_south: "fibonacci_node 1200 0 = Vector3 0 0 (- 1.005)"
  by (simp add: fibonacci_node_def Let_def)

section \<open>Great-circle interpolation between vectors of the node radius\<close>

lemma sine_weights:
  fixes th t :: real
  assumes s: "sin th \<noteq> 0"
  shows "sin ((1 - t) * th) / sin th \<noteq> 0 \<or> sin (t * th) / sin th \<noteq> 0"
proof (rule ccontr)
  assume "\<not> ?thesis"
  then have z: "sin ((1 - t) * th) = 0" "sin (t * th) = 0" using s by auto
  have "sin th = sin ((1 - t) * th + t * th)" by (simp add: algebra_simps)
  also have "\<dots> = 0" by (simp only: sin_add z)
  finally show False using s by simp
qed

lemma slerp_direction_nodes:
  assumes p: "vlength p = r" and q: "vlength q = r" and r: "1 < r"
    and d: "- 1 \<le> dot p q" "dot p q \<le> 1" and s: "sin th \<noteq> 0"
  shows "vlength (slerp_direction p q th t) = 1"
    and "slerp_direction p q th 0 = multiplyScalar p (1 / r)"
    and "slerp_direction p q th 1 = multiplyScalar q (1 / r)"
proof -
  show "vlength (slerp_direction p q th t) = 1"
    unfolding slerp_direction_def Let_def
    by (rule vlength_normalize) (rule combination_nonzero [OF p q r d sine_weights [OF s]])
  have pos: "0 < r" using r by simp
  show "slerp_direction p q th 0 = multiplyScalar p (1 / r)"
    using s by (simp add: slerp_direction_def Let_def combination_first normalize_length [OF p pos])
  show "slerp_direction p q th 1 = multiplyScalar q (1 / r)"
    using s by (simp add: slerp_direction_def Let_def combination_second normalize_length [OF q pos])
qed

lemma build_step_number:
  assumes d: "- 1 \<le> dot p q" "dot p q \<le> 1"
  shows "build_step p q m t =
          (if sin (arccos (dot p q)) < 0.001 then None
           else Some (Point (multiplyScalar (slerp_direction p q (arccos (dot p q)) t) m)))"
  using d by (simp add: build_step_def js_acos_def slerp_point_def Let_def)

lemma lerp_len:
  assumes p: "vlength p = r" and q: "vlength q = r"
  shows "(vlength (lerp p q t))\<^sup>2 = r\<^sup>2 - 2 * (t * (1 - t)) * (r\<^sup>2 - dot p q)"
proof -
  have p': "vx p * vx p + vy p * vy p + vz p * vz p = r\<^sup>2" using p by (rule len_sq)
  have q': "vx q * vx q + vy q * vy q + vz q * vz q = r\<^sup>2" using q by (rule len_sq)
  have "(vlength (lerp p q t))\<^sup>2
      = (1 - t)\<^sup>2 * (vx p * vx p + vy p * vy p + vz p * vz p)
        + t\<^sup>2 * (vx q * vx q + vy q * vy q + vz q * vz q) + 2 * (t * (1 - t)) * dot p q"
    unfolding vlength_sq
    by (simp add: lerp_def Vector3_def dot_def power2_eq_square algebra_simps)
  also have "\<dots> = r\<^sup>2 - 2 * (t * (1 - t)) * (r\<^sup>2 - dot p q)"
    by (simp only: p' q') (simp add: power2_eq_square algebra_simps)
  finally show ?thesis .
qed

lemma opposite:
  assumes p: "vlength p = r" and q: "vlength q = r" and d: "dot p q = - (r\<^sup>2)"
  shows "q = multiplyScalar p (- 1)"
proof -
  have p': "vx p * vx p + vy p * vy p + vz p * vz p = r\<^sup>2" using p by (rule len_sq)
  have q': "vx q * vx q + vy q * vy q + vz q * vz q = r\<^sup>2" using q by (rule len_sq)
  have "(vx p + vx q)\<^sup>2 + (vy p + vy q)\<^sup>2 + (vz p + vz q)\<^sup>2 = 2 * r\<^sup>2 + 2 * dot p q"
    using p' q' by (simp add: dot_def power2_eq_square algebra_simps)
  then have z: "(vx p + vx q)\<^sup>2 + (vy p + vy q)\<^sup>2 + (vz p + vz q)\<^sup>2 = 0"
    by (simp add: d)
  have "vx p + vx q = 0" "vy p + vy q = 0" "vz p + vz q = 0"
    using z by (simp_all add: sum_power2_eq_zero_iff add_nonneg_eq_0_iff)
  then show ?thesis
    by (simp add: multiplyScalar_def Vector3_def add_eq_0_iff)
qed

lemma lerp_nonzero_nodes:
  assumes p: "vlength p = r" and q: "vlength q = r" and r: "0 < r"
    and na: "q \<noteq> multiplyScalar p (- 1)" and t: "0 \<le> t" "t \<le> 1"
  shows "vlength (lerp p q t) \<noteq> 0"
proof -
  have r2: "0 < r\<^sup>2" using r by simp
  have "dot p q \<noteq> - (r\<^sup>2)" using opposite [OF p q] na by blast
  then have d: "r\<^sup>2 - dot p q < 2 * r\<^sup>2" using dot_bounds(1) [OF p q] by simp
  have "(1 - 2 * t)\<^sup>2 \<ge> 0" by simp
  then have tt: "t * (1 - t) \<le> 1 / 4" by (simp add: power2_eq_square algebra_simps)
  have tt0: "0 \<le> t * (1 - t)" using t by simp
  have "2 * (t * (1 - t)) * (r\<^sup>2 - dot p q) < r\<^sup>2"
  proof (cases "t * (1 - t) = 0")
    case True
    show ?thesis using r2 by (simp only: True)
  next
    case False
    with tt0 have "0 < t * (1 - t)" by (metis less_le)
    then have "t * (1 - t) * (r\<^sup>2 - dot p q) < t * (1 - t) * (2 * r\<^sup>2)"
      using d by (simp only: mult_strict_left_mono)
    also have "\<dots> \<le> 1 / 4 * (2 * r\<^sup>2)"
      using tt r2 by (intro mult_right_mono) simp_all
    finally show ?thesis by simp
  qed
  then have "(vlength (lerp p q t))\<^sup>2 > 0"
    by (simp only: lerp_len [OF p q])
  then show ?thesis by simp
qed

lemma arc_direction_nodes:
  assumes p: "vlength p = r" and q: "vlength q = r" and r: "0 < r"
  shows "q \<noteq> multiplyScalar p (- 1) \<Longrightarrow> 0 \<le> t \<Longrightarrow> t \<le> 1 \<Longrightarrow> vlength (arc_direction p q t) = 1"
    and "arc_direction p q 0 = multiplyScalar p (1 / r)"
    and "arc_direction p q 1 = multiplyScalar q (1 / r)"
proof -
  show "q \<noteq> multiplyScalar p (- 1) \<Longrightarrow> 0 \<le> t \<Longrightarrow> t \<le> 1 \<Longrightarrow> vlength (arc_direction p q t) = 1"
    unfolding arc_direction_def
    by (rule vlength_normalize) (rule lerp_nonzero_nodes [OF p q r])
  have "lerp p q 0 = p" "lerp p q 1 = q"
    by (simp_all add: lerp_def Vector3_def)
  then show "arc_direction p q 0 = multiplyScalar p (1 / r)"
    "arc_direction p q 1 = multiplyScalar q (1 / r)"
    by (simp_all add: arc_direction_def normalize_length [OF p r] normalize_length [OF q r])
qed

section \<open>C2: endpoints and unit norm of the interpolation\<close>

lemma fibonacci_equator:
  "fibonacci_node 1200 600 =
     Vector3 (1.005 * cos (sqrt (1200 * pi) * (pi / 2)))
             (1.005 * sin (sqrt (1200 * pi) * (pi / 2))) 0"
  by (simp add: fibonacci_node_def Let_def)

lemma fibonacci_sample_nodes:
  "fibonacci_node 1200 0 \<in> set (fibonacci_nodes 1200)"
  "fibonacci_node 1200 600 \<in> set (fibonacci_nodes 1200)"
  by (simp_all add: fibonacci_nodes_def)

lemma fibonacci_sample_dot: "dot (fibonacci_node 1200 0) (fibonacci_node 1200 600) = 0"
  by (simp only: fibonacci_south fibonacci_equator) (simp add: dot_def Vector3_def)

lemma orthogonal_nodes:
  "random_node orthogonal_draws 0 0 \<in> set (fst (random_nodes orthogonal_draws 0 0 2))"
  "random_node orthogonal_draws 4 1 \<in> set (fst (random_nodes orthogonal_draws 0 0 2))"
  by (simp_all add: eval_nat_numeral Let_def split_beta)

lemma orthogonal_positions:
  "basePosition (random_node orthogonal_draws 0 0) = Vector3 0 0 (- 1.005)"
  "basePosition (random_node orthogonal_draws 4 1) = Vector3 1.005 0 0"
  by (simp_all add: random_node_def orthogonal_draws_def Let_def)

text \<open>
  C2 (as amended). The endpoints the program interpolates between are node positions, of
  norm 1.005. For two nodes of the uniform-random variant whose dot product lies in
  \<open>[-1, 1]\<close>, the build-time interpolation skips the step when \<open>sin(angle) < 0.001\<close>;
  otherwise it pushes the direction
  \<open>(sin((1 - t) angle) p1 + sin(t angle) p2) / sin(angle)\<close>, \<open>angle = arccos(p1 . p2)\<close>,
  renormalised and scaled to the altitude; the renormalised direction has norm 1 for every
  \<open>t\<close>, and it is \<open>p1 / 1.005\<close> at \<open>t = 0\<close> and \<open>p2 / 1.005\<close> at \<open>t = 1\<close>. The direction of
  \<open>createArc\<close> between two nodes of the Fibonacci variant is the normalised linear blend
  instead: for non-antipodal nodes it has norm 1 for every \<open>t\<close> in \<open>[0, 1]\<close>, and it is
  \<open>p1 / 1.005\<close> at \<open>t = 0\<close> and \<open>p2 / 1.005\<close> at \<open>t = 1\<close>.
\<close>

theorem great_circle_interpolation:
  assumes n1: "n1 \<in> set (fst (random_nodes rnd c i k))"
    and n2: "n2 \<in> set (fst (random_nodes rnd c i k))"
    and p1: "p1 \<in> set (fibonacci_nodes n)"
    and p2: "p2 \<in> set (fibonacci_nodes n)"
  shows "(- 1 \<le> dot (basePosition n1) (basePosition n2) \<longrightarrow>
          dot (basePosition n1) (basePosition n2) \<le> 1 \<longrightarrow>
            (sin (arccos (dot (basePosition n1) (basePosition n2))) < 0.001 \<longrightarrow>
               build_step (basePosition n1) (basePosition n2) m t = None) \<and>
            (\<not> sin (arccos (dot (basePosition n1) (basePosition n2))) < 0.001 \<longrightarrow>
               build_step (basePosition n1) (basePosition n2) m t =
                 Some (Point (multiplyScalar
                   (slerp_direction (basePosition n1) (basePosition n2)
                      (arccos (dot (basePosition n1) (basePosition n2))) t) m)) \<and>
               slerp_direction (basePosition n1) (basePosition n2)
                   (arccos (dot (basePosition n1) (basePosition n2))) t =
                 normalize (addScaledVector
                   (addScaledVector (Vector3 0 0 0) (basePosition n1)
                     (sin ((1 - t) * arccos (dot (basePosition n1) (basePosition n2)))
                        / sin (arccos (dot (basePosition n1) (basePosition n2)))))
                   (basePosition n2)
                   (sin (t * arccos (dot (basePosition n1) (basePosition n2)))
                      / sin (arccos (dot (basePosition n1) (basePosition n2))))) \<and>
               vlength (slerp_direction (basePosition n1) (basePosition n2)
                          (arccos (dot (basePosition n1) (basePosition n2))) t) = 1 \<and>
               slerp_direction (basePosition n1) (basePosition n2)
                   (arccos (dot (basePosition n1) (basePosition n2))) 0 =
                 multiplyScalar (basePosition n1) (1 / 1.005) \<and>
               slerp_direction (basePosition n1) (basePosition n2)
                   (arccos (dot (basePosition n1) (basePosition n2))) 1 =
                 multiplyScalar (basePosition n2) (1 / 1.005))) \<and>
         (p2 \<noteq> multiplyScalar p1 (- 1) \<longrightarrow> 0 \<le> t \<longrightarrow> t \<le> 1 \<longrightarrow>
            vlength (arc_direction p1 p2 t) = 1) \<and>
         arc_direction p1 p2 0 = multiplyScalar p1 (1 / 1.005) \<and>
         arc_direction p1 p2 1 = multiplyScalar p2 (1 / 1.005)"
proof -
  let ?P = "basePosition n1" and ?Q = "basePosition n2"
  have P: "vlength ?P = 1.005" using n1 by (rule random_nodes_radius)
  have Q: "vlength ?Q = 1.005" using n2 by (rule random_nodes_radius)
  have a: "vlength p1 = 1.005"
    using p1 by (auto simp add: fibonacci_nodes_def fibonacci_node_radius)
  have b: "vlength p2 = 1.005"
    using p2 by (auto simp add: fibonacci_nodes_def fibonacci_node_radius)
  have r: "(1::real) < 1.005" "(0::real) < 1.005" by simp_all
  have build: "(sin (arccos (dot ?P ?Q)) < 0.001 \<longrightarrow> build_step ?P ?Q m t = None) \<and>
      (\<not> sin (arccos (dot ?P ?Q)) < 0.001 \<longrightarrow>
         build_step ?P ?Q m t =
           Some (Point (multiplyScalar (slerp_direction ?P ?Q (arccos (dot ?P ?Q)) t) m)) \<and>
         slerp_direction ?P ?Q (arccos (dot ?P ?Q)) t =
           normalize (addScaledVector
             (addScaledVector (Vector3 0 0 0) ?P
               (sin ((1 - t) * arccos (dot ?P ?Q)) / sin (arccos (dot ?P ?Q))))
             ?Q (sin (t * arccos (dot ?P ?Q)) / sin (arccos (dot ?P ?Q)))) \<and>
         vlength (slerp_direction ?P ?Q (arccos (dot ?P ?Q)) t) = 1 \<and>
         slerp_direction ?P ?Q (arccos (dot ?P ?Q)) 0 = multiplyScalar ?P (1 / 1.005) \<and>
         slerp_direction ?P ?Q (arccos (dot ?P ?Q)) 1 = multiplyScalar ?Q (1 / 1.005))"
    if d: "- 1 \<le> dot ?P ?Q" "dot ?P ?Q \<le> 1"
  proof (intro conjI impI)
    assume "sin (arccos (dot ?P ?Q)) < 0.001"
    then show "build_step ?P ?Q m t = None"
      by (simp only: build_step_number [OF d] if_True)
  next
    assume g: "\<not> sin (arccos (dot ?P ?Q)) < 0.001"
    then have s: "sin (arccos (dot ?P ?Q)) \<noteq> 0" by auto
    note u = slerp_direction_nodes [OF P Q r(1) d s]
    show "build_step ?P ?Q m t =
        Some (Point (multiplyScalar (slerp_direction ?P ?Q (arccos (dot ?P ?Q)) t) m))"
      using g by (simp only: build_step_number [OF d] if_False)
    show "slerp_direction ?P ?Q (arccos (dot ?P ?Q)) t =
        normalize (addScaledVector
          (addScaledVector (Vector3 0 0 0) ?P
            (sin ((1 - t) * arccos (dot ?P ?Q)) / sin (arccos (dot ?P ?Q))))
          ?Q (sin (t * arccos (dot ?P ?Q)) / sin (arccos (dot ?P ?Q))))"
      by (simp only: slerp_direction_def Let_def)
    show "vlength (slerp_direction ?P ?Q (arccos (dot ?P ?Q)) t) = 1" by (rule u(1))
    show "slerp_direction ?P ?Q (arccos (dot ?P ?Q)) 0 = multiplyScalar ?P (1 / 1.005)"
      by (rule u(2))
    show "slerp_direction ?P ?Q (arccos (dot ?P ?Q)) 1 = multiplyScalar ?Q (1 / 1.005)"
      by (rule u(3))
  qed
  note v = arc_direction_nodes [OF a b r(2)]
  have arc: "p2 \<noteq> multiplyScalar p1 (- 1) \<longrightarrow> 0 \<le> t \<longrightarrow> t \<le> 1 \<longrightarrow>
      vlength (arc_direction p1 p2 t) = 1"
    using v(1) by blast
  from build arc v(2) v(3) show ?thesis
    by blast
qed

theorem great_circle_interpolation_witness:
  "random_node orthogonal_draws 0 0 \<in> set (fst (random_nodes orthogonal_draws 0 0 2)) \<and>
   random_node orthogonal_draws 4 1 \<in> set (fst (random_nodes orthogonal_draws 0 0 2)) \<and>
   fibonacci_node 1200 0 \<in> set (fibonacci_nodes 1200) \<and>
   fibonacci_node 1200 600 \<in> set (fibonacci_nodes 1200) \<and>
   dot (basePosition (random_node orthogonal_draws 0 0))
       (basePosition (random_node orthogonal_draws 4 1)) = 0 \<and>
   \<not> sin (arccos (dot (basePosition (random_node orthogonal_draws 0 0))
                       (basePosition (random_node orthogonal_draws 4 1)))) < 0.001 \<and>
   fibonacci_node 1200 600 \<noteq> multiplyScalar (fibonacci_node 1200 0) (- 1) \<and>
   build_step (basePosition (random_node orthogonal_draws 0 0))
              (basePosition (random_node orthogonal_draws 4 1)) 1.004 0
     = Some (Point (multiplyScalar (multiplyScalar (Vector3 0 0 (- 1.005)) (1 / 1.005)) 1.004)) \<and>
   vlength (arc_direction (fibonacci_node 1200 0) (fibonacci_node 1200 600) (1 / 3)) = 1 \<and>
   arc_direction (fibonacci_node 1200 0) (fibonacci_node 1200 600) 0
     = multiplyScalar (Vector3 0 0 (- 1.005)) (1 / 1.005)"
proof -
  let ?n1 = "random_node orthogonal_draws 0 0" and ?n2 = "random_node orthogonal_draws 4 1"
  let ?p = "fibonacci_node 1200 0" and ?q = "fibonacci_node 1200 600"
  have d: "dot (basePosition ?n1) (basePosition ?n2) = 0"
    by (simp only: orthogonal_positions) (simp add: dot_def Vector3_def)
  have g: "\<not> sin (arccos (dot (basePosition ?n1) (basePosition ?n2))) < 0.001"
    by (simp only: d) simp
  have na: "?q \<noteq> multiplyScalar ?p (- 1)"
    by (simp only: fibonacci_south fibonacci_equator)
       (simp add: multiplyScalar_def Vector3_def)
  note T0 = great_circle_interpolation
    [OF orthogonal_nodes(1) orthogonal_nodes(2) fibonacci_sample_nodes(1)
        fibonacci_sample_nodes(2), of "1.004" 0]
  note T1 = great_circle_interpolation
    [OF orthogonal_nodes(1) orthogonal_nodes(2) fibonacci_sample_nodes(1)
        fibonacci_sample_nodes(2), of "1.004" "1 / 3"]
  have d1: "- 1 \<le> dot (basePosition ?n1) (basePosition ?n2)"
    and d2: "dot (basePosition ?n1) (basePosition ?n2) \<le> 1"
    unfolding d by simp_all
  from T0 g d1 d2 have bs: "build_step (basePosition ?n1) (basePosition ?n2) 1.004 0 =
      Some (Point (multiplyScalar
        (slerp_direction (basePosition ?n1) (basePosition ?n2)
           (arccos (dot (basePosition ?n1) (basePosition ?n2))) 0) 1.004))"
    and z: "slerp_direction (basePosition ?n1) (basePosition ?n2)
           (arccos (dot (basePosition ?n1) (basePosition ?n2))) 0 =
         multiplyScalar (basePosition ?n1) (1 / 1.005)"
    and e: "arc_direction ?p ?q 0 = multiplyScalar ?p (1 / 1.005)"
    by blast+
  have b': "build_step (basePosition ?n1) (basePosition ?n2) 1.004 0 =
      Some (Point (multiplyScalar (multiplyScalar (Vector3 0 0 (- 1.005)) (1 / 1.005)) 1.004))"
    by (rule trans [OF bs]) (simp only: z, simp only: orthogonal_positions(1))
  have e': "arc_direction ?p ?q 0 = multiplyScalar (Vector3 0 0 (- 1.005)) (1 / 1.005)"
    by (rule trans [OF e]) (simp only: fibonacci_south)
  from T1 na have a: "vlength (arc_direction ?p ?q (1 / 3)) = 1"
    by simp
  from orthogonal_nodes fibonacci_sample_nodes d g na b' a e' show ?thesis
    by blast
qed

text \<open>
  The claim as stated fails for \<open>createArc\<close>. Nodes 0 and 600 of the 1200 Fibonacci nodes
  are more than 1.0 apart, so the arc loop builds an arc between them when it draws this
  pair; at \<open>t = 1/3\<close> the direction of that arc is not the one of the sine formula.
\<close>

theorem createArc_not_slerp:
  "fibonacci_node 1200 0 \<in> set (fibonacci_nodes 1200) \<and>
   fibonacci_node 1200 600 \<in> set (fibonacci_nodes 1200) \<and>
   1.0 < distanceTo (fibonacci_node 1200 0) (fibonacci_node 1200 600) \<and>
   arc_direction (fibonacci_node 1200 0) (fibonacci_node 1200 600) (1 / 3) \<noteq>
   slerp_direction (fibonacci_node 1200 0) (fibonacci_node 1200 600)
     (arccos (dot (fibonacci_node 1200 0) (fibonacci_node 1200 600))) (1 / 3)"
proof (intro conjI)
  let ?p = "fibonacci_node 1200 0" and ?q = "fibonacci_node 1200 600"
  show "?p \<in> set (fibonacci_nodes 1200)" by (rule fibonacci_sample_nodes(1))
  show "?q \<in> set (fibonacci_nodes 1200)" by (rule fibonacci_sample_nodes(2))
  have p: "vlength ?p = 1.005" and q: "vlength ?q = 1.005"
    by (rule fibonacci_node_radius)+
  have d: "dot ?p ?q = 0" by (rule fibonacci_sample_dot)
  have th: "arccos (dot ?p ?q) = pi / 2" by (simp add: d)
  have zp: "vz ?p = - 1.005" by (simp only: fibonacci_south) (simp add: Vector3_def)
  have zq: "vz ?q = 0" by (simp only: fibonacci_equator) (simp add: Vector3_def)
  have "(distanceTo ?p ?q)\<^sup>2 = 2 * 1.005\<^sup>2 - 2 * dot ?p ?q"
    by (rule distance_sq [OF p q])
  then have "(distanceTo ?p ?q)\<^sup>2 = 2 * 1.005\<^sup>2"
    unfolding d by simp
  then have "1\<^sup>2 < (distanceTo ?p ?q)\<^sup>2" by (simp add: power2_eq_square)
  moreover have "0 \<le> distanceTo ?p ?q" by (simp add: distanceTo_def Let_def)
  ultimately have "1 < distanceTo ?p ?q"
    by (simp only: power2_less_imp_less)
  then show "1.0 < distanceTo ?p ?q" by simp
  show "arc_direction ?p ?q (1 / 3) \<noteq> slerp_direction ?p ?q (arccos (dot ?p ?q)) (1 / 3)"
  proof
    assume eq: "arc_direction ?p ?q (1 / 3) = slerp_direction ?p ?q (arccos (dot ?p ?q)) (1 / 3)"
    let ?a = "sin ((1 - 1 / 3) * (pi / 2)) / sin (pi / 2) :: real"
    let ?b = "sin (1 / 3 * (pi / 2)) / sin (pi / 2) :: real"
    let ?v = "addScaledVector (addScaledVector (Vector3 0 0 0) ?p ?a) ?q ?b"
    have a: "?a = sqrt 3 / 2"
    proof -
      have "(1 - 1 / 3) * (pi / 2) = pi / 3" by simp
      then show ?thesis by (simp only: sin_60) simp
    qed
    have b: "?b = 1 / 2"
    proof -
      have "1 / 3 * (pi / 2) = pi / 6" by simp
      then show ?thesis by (simp only: sin_30) simp
    qed
    have "(vlength ?v)\<^sup>2 = 1.005\<^sup>2 * (?a\<^sup>2 + ?b\<^sup>2) + 2 * (?a * ?b * dot ?p ?q)"
      by (rule combination_len [OF p q])
    also have "\<dots> = 1.005\<^sup>2"
      by (simp only: a b d) (simp add: power2_eq_square)
    finally have "vlength ?v = 1.005"
      by (simp add: power2_eq_iff_nonneg vlength_def)
    then have "normalize ?v = multiplyScalar ?v (1 / 1.005)"
      by (rule normalize_length) simp
    then have s: "slerp_direction ?p ?q (pi / 2) (1 / 3) = multiplyScalar ?v (1 / 1.005)"
      by (simp only: slerp_direction_def Let_def)
    have "vz (slerp_direction ?p ?q (pi / 2) (1 / 3)) = ?a * vz ?p * (1 / 1.005) + ?b * vz ?q * (1 / 1.005)"
      by (simp only: s) (simp add: multiplyScalar_def addScaledVector_def Vector3_def algebra_simps)
    then have z1: "vz (slerp_direction ?p ?q (arccos (dot ?p ?q)) (1 / 3)) = - (sqrt 3 / 2)"
      by (simp only: th a zp zq) simp
    let ?L = "vlength (lerp ?p ?q (1 / 3))"
    have "?L\<^sup>2 = 1.005\<^sup>2 - 2 * (1 / 3 * (1 - 1 / 3)) * (1.005\<^sup>2 - dot ?p ?q)"
      by (rule lerp_len [OF p q])
    then have L2: "?L\<^sup>2 = 5 / 9 * 1.005\<^sup>2"
      by (simp only: d) simp
    then have L0: "?L \<noteq> 0" by auto
    have "vz (arc_direction ?p ?q (1 / 3)) = (vz ?p + (vz ?q - vz ?p) * (1 / 3)) * (1 / ?L)"
      using L0 by (simp add: arc_direction_def normalize_def multiplyScalar_def lerp_def Vector3_def)
    then have z2: "vz (arc_direction ?p ?q (1 / 3)) = - (2 / 3 * 1.005) * (1 / ?L)"
      by (simp only: zp zq) simp
    from eq z1 z2 have "- (2 / 3 * 1.005) * (1 / ?L) = - (sqrt 3 / 2)" by simp
    then have "2 / 3 * 1.005 = sqrt 3 / 2 * ?L"
      using L0 by (simp add: field_simps)
    then have "(2 / 3 * 1.005)\<^sup>2 = (sqrt 3 / 2 * ?L)\<^sup>2" by simp
    also have "\<dots> = 3 / 4 * ?L\<^sup>2"
      by (simp add: power_mult_distrib power_divide)
    finally show False
      by (simp only: L2) (simp add: power2_eq_square)
  qed
qed

section \<open>C6: the guard on the division by the sine\<close>

lemma nan_steps:
  assumes "1 < dot p q"
  shows "build_step p q m t = Some NaN_point" and "frame_step p q m t = None"
  using assms by (simp_all add: build_step_def frame_step_def js_acos_def slerp_point_def Let_def)

lemma frame_step_guard:
  assumes "frame_step p q m t = Some pt"
  shows "\<exists>s. js_sin (js_acos (dot p q)) = Num s \<and> 0.001 < s"
  using assms
  by (cases "js_sin (js_acos (dot p q))") (simp_all add: frame_step_def Let_def split: if_splits)

lemma build_step_guard:
  assumes "build_step p q m t = Some pt"
  shows "js_sin (js_acos (dot p q)) = NaN \<or>
         (\<exists>s. js_sin (js_acos (dot p q)) = Num s \<and> 0.001 \<le> s)"
  using assms
  by (cases "js_sin (js_acos (dot p q))") (simp_all add: build_step_def Let_def split: if_splits)

text \<open>
  C6. The division by \<open>sin(angle)\<close> should be reached only when \<open>sin(angle) \<ge> 0.001\<close>.
  The frame updater keeps to it (\<open>frame_step_guard\<close>). The build-time loop does not: node
  positions have norm 1.005, so two near nodes have a dot product above 1, \<open>Math.acos\<close>
  gives NaN, \<open>NaN < 0.001\<close> is false and the step divides by NaN and pushes a NaN point.
  Evaluated here at the nodes built from the draws \<open>0, 0, 0, 0, 0, 1/1000, 0, 0\<close>: the build
  step pushes a NaN point for every \<open>t\<close>, the frame step skips.
\<close>

theorem build_divides_by_nan:
  "build_step (basePosition (random_node near_draws 0 0))
     (basePosition (random_node near_draws 4 1)) 1.004 t = Some NaN_point \<and>
   frame_step (basePosition (random_node near_draws 0 0))
     (basePosition (random_node near_draws 4 1)) 1.004 t = None"
proof -
  have a: "basePosition (random_node near_draws 0 0) = Vector3 0 0 (- 1.005)"
    by (simp add: random_node_def near_draws_def Let_def)
  have b: "basePosition (random_node near_draws 4 1)
     = Vector3 (1.005 * sin (arccos (- 0.998))) 0 (- (1.005 * 0.998))"
    by (simp add: random_node_def near_draws_def Let_def)
  have "1 < dot (basePosition (random_node near_draws 0 0))
      (basePosition (random_node near_draws 4 1))"
    by (simp only: a b) (simp add: dot_def Vector3_def)
  then show ?thesis
    by (simp only: nan_steps)
qed

section \<open>C3: short connections\<close>

lemma short_inv_draw:
  "short_inv nodes (conns, connectionCount, c) \<Longrightarrow> short_inv nodes (conns, connectionCount, c')"
  by (simp add: short_inv_def)

lemma short_inv_push:
  assumes "short_inv nodes (conns, connectionCount, c)" and "connectionCount < maxConnections"
    and "short_ok nodes conn"
  shows "short_inv nodes (conns @ [conn], connectionCount + 1, c')"
  using assms by (simp add: short_inv_def)

lemma connect_inner_inv:
  "short_inv nodes st \<Longrightarrow> i < length nodes \<Longrightarrow> nodes ! i = n1 \<Longrightarrow>
   \<forall>(j, n2) \<in> set rest. i < j \<and> j < length nodes \<and> nodes ! j = n2 \<Longrightarrow>
   short_inv nodes (connect_inner rnd i n1 rest st)"
proof (induction rnd i n1 rest st rule: connect_inner.induct)
  case (1 rnd i n1 st)
  then show ?case by simp
next
  case (2 rnd i n1 j n2 rest conns connectionCount c)
  have rest: "\<forall>(j, n2) \<in> set rest. i < j \<and> j < length nodes \<and> nodes ! j = n2"
    using "2.prems"(4) by simp
  have j: "i < j" "j < length nodes" "nodes ! j = n2"
    using "2.prems"(4) by simp_all
  note inv = "2.prems"(1)
  show ?case
  proof (cases "connectionCount < maxConnections")
    case False
    then show ?thesis using inv by simp
  next
    case lt: True
    show ?thesis
    proof (cases "distanceTo (basePosition n1) (basePosition n2) < 0.5")
      case False
      have "short_inv nodes (connect_inner rnd i n1 rest (conns, connectionCount, c))"
        using lt False inv "2.prems"(2,3) rest by (intro "2.IH"(3)) simp_all
      then show ?thesis
        using lt False by (simp add: Let_def)
    next
      case near: True
      show ?thesis
      proof (cases "rnd c > 0.85")
        case False
        have "short_inv nodes (connect_inner rnd i n1 rest (conns, connectionCount, c + 1))"
          using lt near False short_inv_draw [OF inv] "2.prems"(2,3) rest
          by (intro "2.IH"(2)) simp_all
        then show ?thesis
          using lt near False by (simp add: Let_def)
      next
        case True
        have ok: "short_ok nodes (short_connection rnd (c + 1) i n1 j n2)"
          using near j "2.prems"(3) by (simp add: short_ok_def short_connection_def)
        have "short_inv nodes (connect_inner rnd i n1 rest
            (conns @ [short_connection rnd (c + 1) i n1 j n2], connectionCount + 1, c + 3))"
          using lt near True short_inv_push [OF inv lt ok] "2.prems"(2,3) rest
          by (intro "2.IH"(1)) simp_all
        then show ?thesis
          using lt near True by (simp add: Let_def)
      qed
    qed
  qed
qed

lemma connect_outer_inv:
  "short_inv nodes st \<Longrightarrow> xs = drop m (zip [0..<length nodes] nodes) \<Longrightarrow>
   short_inv nodes (connect_outer rnd xs st)"
proof (induction rnd xs st arbitrary: m rule: connect_outer.induct)
  case (1 rnd st)
  then show ?case by simp
next
  case (2 rnd i n1 rest conns connectionCount c)
  let ?z = "zip [0..<length nodes] nodes"
  have m: "m < length ?z"
    using "2.prems"(2) by (metis drop_all list.distinct(1) not_le)
  have e: "(i, n1) # rest = ?z ! m # drop (Suc m) ?z"
    using "2.prems"(2) Cons_nth_drop_Suc [OF m] by simp
  have tl: "rest = drop (Suc m) ?z"
    using e by simp
  have i: "i = m" "m < length nodes" "nodes ! m = n1"
    using e m by simp_all
  have rest: "\<forall>(j, n2) \<in> set rest. i < j \<and> j < length nodes \<and> nodes ! j = n2"
  proof (clarify)
    fix j n2 assume "(j, n2) \<in> set rest"
    then obtain k where k: "k < length rest" "rest ! k = (j, n2)"
      by (auto simp: in_set_conv_nth)
    from k(1) have b: "Suc m + k < length nodes" by (simp add: tl)
    have "rest ! k = ?z ! (Suc m + k)" using b by (simp add: tl)
    also have "\<dots> = (Suc m + k, nodes ! (Suc m + k))" using b by simp
    finally have "(j, n2) = (Suc m + k, nodes ! (Suc m + k))" by (simp only: k(2))
    then have "j = Suc m + k" "n2 = nodes ! (Suc m + k)" by simp_all
    then show "i < j \<and> j < length nodes \<and> nodes ! j = n2"
      using i b by simp
  qed
  show ?case
  proof (cases "connectionCount < maxConnections")
    case False
    then show ?thesis using "2.prems"(1) by simp
  next
    case True
    have "short_inv nodes (connect_inner rnd i n1 rest (conns, connectionCount, c))"
      using "2.prems"(1) i rest by (intro connect_inner_inv) simp_all
    then have "short_inv nodes
        (connect_outer rnd rest (connect_inner rnd i n1 rest (conns, connectionCount, c)))"
      using True tl by (intro "2.IH") simp_all
    then show ?thesis
      using True by simp
  qed
qed

lemma connect_nodes_inv: "short_inv nodes (connect_nodes rnd nodes c)"
  unfolding connect_nodes_def
  by (rule connect_outer_inv [where m = 0]) (simp_all add: short_inv_def)

lemma vec_at_member: "vec_at ps idx = Inr p \<Longrightarrow> p \<in> set ps"
  by (auto simp: vec_at_def split: if_splits)

lemma scan_node_inv:
  "scan_node rnd ps i p1 k perNode c = Inr (segs, c') \<Longrightarrow> perNode \<le> 4 \<Longrightarrow>
   perNode + length segs \<le> 5 \<and>
   (\<forall>(a, b) \<in> set segs. a = p1 \<and> b \<in> set ps \<and> distanceTo a b < 0.35)"
proof (induction k arbitrary: perNode c segs c')
  case 0
  then show ?case by simp
next
  case (Suc k)
  let ?idx = "js_rem (int i + \<lfloor>rnd c * 200\<rfloor> - 100 + int (length ps)) (int (length ps))"
  show ?case
  proof (cases "int i = ?idx")
    case True
    then have "scan_node rnd ps i p1 k perNode (c + 1) = Inr (segs, c')"
      using Suc.prems(1) by (simp add: Let_def)
    then show ?thesis using Suc.prems(2) by (rule Suc.IH)
  next
    case False
    then obtain p2 where p2: "vec_at ps ?idx = Inr p2"
      using Suc.prems(1) by (cases "vec_at ps ?idx") (simp_all add: Let_def)
    have mem: "p2 \<in> set ps" using p2 by (rule vec_at_member)
    show ?thesis
    proof (cases "distanceTo p1 p2 < 0.35")
      case far: False
      then have "scan_node rnd ps i p1 k perNode (c + 1) = Inr (segs, c')"
        using Suc.prems False p2 by (simp add: Let_def split: sum.splits)
      then show ?thesis using Suc.prems(2) by (rule Suc.IH)
    next
      case near: True
      show ?thesis
      proof (cases "perNode + 1 > 4")
        case True
        then have "segs = [(p1, p2)]"
          using Suc.prems False p2 near by (simp add: Let_def)
        then show ?thesis using Suc.prems(2) near mem by simp
      next
        case le: False
        then obtain rest where r: "scan_node rnd ps i p1 k (perNode + 1) (c + 1) = Inr (rest, c')"
          and s: "segs = (p1, p2) # rest"
          using Suc.prems False p2 near
          by (cases "scan_node rnd ps i p1 k (perNode + 1) (c + 1)")
             (auto simp: Let_def split: sum.splits)
        have "perNode + 1 \<le> 4" using le by simp
        with r have "perNode + 1 + length rest \<le> 5 \<and>
            (\<forall>(a, b) \<in> set rest. a = p1 \<and> b \<in> set ps \<and> distanceTo a b < 0.35)"
          by (rule Suc.IH)
        then show ?thesis using s near mem by simp
      qed
    qed
  qed
qed

lemma connect_close_inv:
  "connect_close rnd ps xs c = Inr (segs, c') \<Longrightarrow> \<forall>(i, p) \<in> set xs. p \<in> set ps \<Longrightarrow>
   length segs = length xs \<and>
   (\<forall>per \<in> set segs. length per \<le> 5 \<and>
      (\<forall>(a, b) \<in> set per. a \<in> set ps \<and> b \<in> set ps \<and> distanceTo a b < 0.35))"
proof (induction xs arbitrary: c segs c')
  case Nil
  then show ?case by simp
next
  case (Cons x xs)
  obtain i p1 where x: "x = (i, p1)" by (cases x)
  from Cons.prems(1) x obtain per c1 others where
    per: "scan_node rnd ps i p1 30 0 c = Inr (per, c1)"
    and oth: "connect_close rnd ps xs c1 = Inr (others, c')"
    and segs: "segs = per # others"
    by (auto split: sum.splits)
  have p1: "p1 \<in> set ps" using Cons.prems(2) x by simp
  have "0 + length per \<le> 5 \<and>
      (\<forall>(a, b) \<in> set per. a = p1 \<and> b \<in> set ps \<and> distanceTo a b < 0.35)"
    using per by (rule scan_node_inv) simp
  then have a: "length per \<le> 5 \<and>
      (\<forall>(a, b) \<in> set per. a \<in> set ps \<and> b \<in> set ps \<and> distanceTo a b < 0.35)"
    using p1 by auto
  have "length others = length xs \<and>
   (\<forall>per \<in> set others. length per \<le> 5 \<and>
      (\<forall>(a, b) \<in> set per. a \<in> set ps \<and> b \<in> set ps \<and> distanceTo a b < 0.35))"
    using oth Cons.prems(2) by (intro Cons.IH) simp_all
  then show ?case using a segs by simp
qed

lemma zip_upt_member: "\<forall>(i, p) \<in> set (zip [0..<n] ps). p \<in> set ps"
  by (auto dest: set_zip_rightD)

lemma near_distance:
  "distanceTo near1 near2 < 0.35" "distanceTo near2 near1 < 0.35"
  "distanceTo near1 near2 < 0.5"
proof -
  have "distanceTo near1 near2 = sqrt 0.080802"
    by (simp add: distanceTo_def near1_def near2_def Vector3_def Let_def)
  moreover have "distanceTo near2 near1 = sqrt 0.080802"
    by (simp add: distanceTo_def near1_def near2_def Vector3_def Let_def)
  moreover have "sqrt 0.080802 < (0.35::real)"
    by (rule real_less_lsqrt) (simp_all add: power2_eq_square)
  ultimately show "distanceTo near1 near2 < 0.35" "distanceTo near2 near1 < 0.35"
    "distanceTo near1 near2 < 0.5"
    by simp_all
qed

lemma sample_connect_nodes:
  "connect_nodes sample_draws [sample_node near1 0, sample_node near2 1] 0 =
     ([short_connection sample_draws 1 0 (sample_node near1 0) 1 (sample_node near2 1)], 1, 3)"
  using near_distance(3)
  by (simp add: connect_nodes_def maxConnections_def sample_node_def sample_draws_def Let_def)

lemma sample_scan:
  "scan_node sample_draws [near1, near2] 0 near1 30 0 c =
     Inr (replicate 5 (near1, near2), c + 5)"
  "scan_node sample_draws [near1, near2] (Suc 0) near2 30 0 c =
     Inr (replicate 5 (near2, near1), c + 5)"
  using near_distance(1,2)
  by (simp_all add: eval_nat_numeral js_rem_def vec_at_def sample_draws_def Let_def)

lemma sample_connect_close:
  "connect_close sample_draws [near1, near2] (zip [0..<length [near1, near2]] [near1, near2]) 0 =
     Inr ([replicate 5 (near1, near2), replicate 5 (near2, near1)], 10)"
  by (simp add: sample_scan upt_rec)

text \<open>
  C3 (as amended). Every short connection made at scene build joins two nodes whose chord
  distance is below the threshold at that time. Uniform-random variant: every connection
  has \<open>node1 < node2\<close>, both are nodes, their distance is below 0.5, and
  \<open>connectionCount\<close>, the number of connections, is at most 800. Fibonacci variant:
  every node is scanned, the scan of one node pushes at most 5 segments (it breaks once
  its count is above 4), and the two ends of every segment are node positions less than
  0.35 apart. The cap of the Fibonacci variant bounds the segments pushed by the scan of a
  node; it does not bound the number of segments that end at a node.
\<close>

theorem short_connections_within_threshold:
  "(connect_nodes rnd nodes c = (conns, connectionCount, c') \<longrightarrow>
      connectionCount \<le> 800 \<and> length conns = connectionCount \<and>
      (\<forall>conn \<in> set conns.
         node1 conn < node2 conn \<and> node2 conn < length nodes \<and>
         distanceTo (basePosition (nodes ! node1 conn)) (basePosition (nodes ! node2 conn)) < 0.5)) \<and>
   (connect_close rnd' ps (zip [0..<length ps] ps) d = Inr (segs, d') \<longrightarrow>
      length segs = length ps \<and>
      (\<forall>per \<in> set segs. length per \<le> 5 \<and>
         (\<forall>(a, b) \<in> set per. a \<in> set ps \<and> b \<in> set ps \<and> distanceTo a b < 0.35)))"
proof (intro conjI impI)
  assume e: "connect_nodes rnd nodes c = (conns, connectionCount, c')"
  have inv: "short_inv nodes (conns, connectionCount, c')"
    using connect_nodes_inv [of nodes rnd c] by (simp only: e)
  show "connectionCount \<le> 800" "length conns = connectionCount"
    using inv by (simp_all add: short_inv_def maxConnections_def)
  show "\<forall>conn \<in> set conns.
         node1 conn < node2 conn \<and> node2 conn < length nodes \<and>
         distanceTo (basePosition (nodes ! node1 conn)) (basePosition (nodes ! node2 conn)) < 0.5"
    using inv by (simp add: short_inv_def short_ok_def)
next
  assume "connect_close rnd' ps (zip [0..<length ps] ps) d = Inr (segs, d')"
  then have r: "length segs = length (zip [0..<length ps] ps) \<and>
   (\<forall>per \<in> set segs. length per \<le> 5 \<and>
      (\<forall>(a, b) \<in> set per. a \<in> set ps \<and> b \<in> set ps \<and> distanceTo a b < 0.35))"
    using zip_upt_member by (rule connect_close_inv)
  then show "length segs = length ps" by simp
  from r show "\<forall>per \<in> set segs. length per \<le> 5 \<and>
      (\<forall>(a, b) \<in> set per. a \<in> set ps \<and> b \<in> set ps \<and> distanceTo a b < 0.35)"
    by blast
qed

theorem short_connections_within_threshold_witness:
  "connect_nodes sample_draws [sample_node near1 0, sample_node near2 1] 0 =
     ([short_connection sample_draws 1 0 (sample_node near1 0) 1 (sample_node near2 1)], 1, 3) \<and>
   (1::nat) \<le> 800 \<and>
   distanceTo (basePosition ([sample_node near1 0, sample_node near2 1] ! 0))
     (basePosition ([sample_node near1 0, sample_node near2 1] ! 1)) < 0.5 \<and>
   connect_close sample_draws [near1, near2] (zip [0..<length [near1, near2]] [near1, near2]) 0 =
     Inr ([replicate 5 (near1, near2), replicate 5 (near2, near1)], 10) \<and>
   length (replicate 5 (near1, near2)) \<le> 5 \<and>
   distanceTo near1 near2 < 0.35"
proof -
  let ?ns = "[sample_node near1 0, sample_node near2 1]"
  let ?conn = "short_connection sample_draws 1 0 (sample_node near1 0) 1 (sample_node near2 1)"
  let ?ps = "[near1, near2]"
  note T = short_connections_within_threshold [of sample_draws ?ns 0 "[?conn]" 1 3
      sample_draws ?ps 0 "[replicate 5 (near1, near2), replicate 5 (near2, near1)]" 10]
  note TA = T [THEN conjunct1, THEN mp, OF sample_connect_nodes]
  note TB = T [THEN conjunct2, THEN mp, OF sample_connect_close]
  have mem: "?conn \<in> set [?conn]" by simp
  note P = TA [THEN conjunct2, THEN conjunct2, THEN bspec, OF mem, THEN conjunct2, THEN conjunct2]
  have n: "node1 ?conn = 0" "node2 ?conn = 1"
    by (simp_all add: short_connection_def)
  have a: "distanceTo (basePosition (?ns ! 0)) (basePosition (?ns ! 1)) < 0.5"
    using P by (simp only: n)
  from TB have b: "length (replicate 5 (near1, near2)) \<le> 5 \<and> distanceTo near1 near2 < 0.35"
    by simp
  from a b sample_connect_nodes sample_connect_close show ?thesis
    by simp
qed

text \<open>
  With draws in \<open>[0, 1)\<close> and at least 100 nodes every sampled index is a node, so the
  scans return.
\<close>

lemma sampled_index_range:
  assumes v: "valid_rng rnd" and n: "100 \<le> length ps"
  shows "0 \<le> js_rem (int i + \<lfloor>rnd c * 200\<rfloor> - 100 + int (length ps)) (int (length ps))"
    and "js_rem (int i + \<lfloor>rnd c * 200\<rfloor> - 100 + int (length ps)) (int (length ps))
           < int (length ps)"
proof -
  have "0 \<le> rnd c" using v by (simp add: valid_rng_def)
  then have "0 \<le> \<lfloor>rnd c * 200\<rfloor>" by simp
  moreover have "100 \<le> int (length ps)" using n by linarith
  ultimately have a: "0 \<le> int i + \<lfloor>rnd c * 200\<rfloor> - 100 + int (length ps)" by linarith
  have p: "0 < int (length ps)" using n by linarith
  show "0 \<le> js_rem (int i + \<lfloor>rnd c * 200\<rfloor> - 100 + int (length ps)) (int (length ps))"
    using a p by (simp add: js_rem_def)
  show "js_rem (int i + \<lfloor>rnd c * 200\<rfloor> - 100 + int (length ps)) (int (length ps))
           < int (length ps)"
    using a p by (simp add: js_rem_def)
qed

lemma scan_node_total:
  assumes v: "valid_rng rnd" and n: "100 \<le> length ps"
  shows "\<exists>r. scan_node rnd ps i p1 k perNode c = Inr r"
proof (induction k arbitrary: perNode c)
  case 0
  show ?case by simp
next
  case (Suc k)
  let ?idx = "js_rem (int i + \<lfloor>rnd c * 200\<rfloor> - 100 + int (length ps)) (int (length ps))"
  have at: "vec_at ps ?idx = Inr (ps ! nat ?idx)"
    using sampled_index_range [OF v n, of i c] by (simp add: vec_at_def)
  show ?case
  proof (cases "int i = ?idx")
    case True
    then show ?thesis using Suc.IH [of perNode "c + 1"] by (simp add: Let_def)
  next
    case False
    from Suc.IH [of "perNode + 1" "c + 1"] Suc.IH [of perNode "c + 1"] False
    show ?thesis
      by (auto simp: Let_def at)
  qed
qed

lemma connect_close_total:
  assumes v: "valid_rng rnd" and n: "100 \<le> length ps"
  shows "\<exists>r. connect_close rnd ps xs c = Inr r"
proof (induction xs arbitrary: c)
  case Nil
  show ?case by simp
next
  case (Cons x xs)
  obtain i p1 where x: "x = (i, p1)" by (cases x)
  obtain segs c1 where s: "scan_node rnd ps i p1 30 0 c = Inr (segs, c1)"
    using scan_node_total [OF v n, of i p1 30 0 c] by (metis surj_pair)
  obtain others c2 where o: "connect_close rnd ps xs c1 = Inr (others, c2)"
    using Cons.IH [of c1] by (metis surj_pair)
  show ?case by (simp add: x s o)
qed

lemma scan_node_repeat:
  assumes j: "j < length ps" and ij: "i \<noteq> j"
    and near: "distanceTo p1 (ps ! j) < 0.35"
    and idx: "js_rem (int i + \<lfloor>x * 200\<rfloor> - 100 + int (length ps)) (int (length ps)) = int j"
  shows "perNode \<le> 4 \<Longrightarrow> 5 - perNode \<le> k \<Longrightarrow> \<forall>n < 5 - perNode. rnd (c + n) = x \<Longrightarrow>
         scan_node rnd ps i p1 k perNode c =
           Inr (replicate (5 - perNode) (p1, ps ! j), c + (5 - perNode))"
proof (induction k arbitrary: perNode c)
  case 0
  then show ?case by simp
next
  case (Suc k)
  have "0 < 5 - perNode" using Suc.prems(1) by simp
  then have "rnd (c + 0) = x" using Suc.prems(3) by blast
  then have x: "rnd c = x" by simp
  have at: "vec_at ps (int j) = Inr (ps ! j)"
    using j by (simp add: vec_at_def)
  have ne: "int i \<noteq> int j" using ij by simp
  show ?case
  proof (cases "perNode = 4")
    case True
    then show ?thesis
      using near ne by (simp add: Let_def x idx at)
  next
    case False
    then have le: "perNode + 1 \<le> 4" using Suc.prems(1) by simp
    have k: "5 - (perNode + 1) \<le> k" using Suc.prems(2) by simp
    have d: "\<forall>n < 5 - (perNode + 1). rnd (c + 1 + n) = x"
    proof (intro allI impI)
      fix n assume "n < 5 - (perNode + 1)"
      then have "Suc n < 5 - perNode" by simp
      then have "rnd (c + Suc n) = x" using Suc.prems(3) by blast
      then show "rnd (c + 1 + n) = x" by simp
    qed
    have r: "scan_node rnd ps i p1 k (perNode + 1) (c + 1) =
        Inr (replicate (5 - (perNode + 1)) (p1, ps ! j), c + 1 + (5 - (perNode + 1)))"
      using le k d by (rule Suc.IH)
    have s: "5 - perNode = Suc (5 - (perNode + 1))" using le by simp
    have c: "c + 1 + (5 - (perNode + 1)) = c + (5 - perNode)" using le by simp
    have n4: "\<not> perNode + 1 > 4" using le by simp
    show ?thesis
      unfolding scan_node.simps Let_def x idx at sum.case
      using near ne n4 r le by (simp add: s)
  qed
qed

lemma degree_draws_valid: "valid_rng degree_draws"
  by (simp add: valid_rng_def degree_draws_def)

lemma fibonacci_nodes_nth:
  "length (fibonacci_nodes n) = n" "j < n \<Longrightarrow> fibonacci_nodes n ! j = fibonacci_node n j"
  by (simp_all add: fibonacci_nodes_def)

lemma fibonacci_first_near:
  "distanceTo (fibonacci_node 1200 0) (fibonacci_node 1200 1) < 0.35"
  "distanceTo (fibonacci_node 1200 1) (fibonacci_node 1200 0) < 0.35"
proof -
  let ?p = "fibonacci_node 1200 0" and ?q = "fibonacci_node 1200 1"
  have p: "vlength ?p = 1.005" and q: "vlength ?q = 1.005"
    by (rule fibonacci_node_radius)+
  have "vz ?q = 1.005 * cos (arccos (- 1 + 2 / 1200))"
    by (simp add: fibonacci_node_def Let_def Vector3_def)
  also have "cos (arccos (- 1 + 2 / 1200 :: real)) = - 1 + 2 / 1200"
    by (rule cos_arccos) simp_all
  finally have z: "vz ?q = 1.005 * (- 1 + 2 / 1200)" .
  have d: "dot ?p ?q = - 1.005 * vz ?q"
    by (simp only: fibonacci_south) (simp add: dot_def Vector3_def)
  have "(distanceTo ?p ?q)\<^sup>2 = 2 * 1.005\<^sup>2 - 2 * dot ?p ?q"
    by (rule distance_sq [OF p q])
  then have "(distanceTo ?p ?q)\<^sup>2 < 0.35\<^sup>2"
    unfolding d z by (simp add: power2_eq_square)
  then show a: "distanceTo ?p ?q < 0.35"
    by (rule power2_less_imp_less) simp
  have "distanceTo ?q ?p = distanceTo ?p ?q"
    by (simp add: distanceTo_def Let_def power2_eq_square [symmetric] power2_commute)
  then show "distanceTo ?q ?p < 0.35" using a by simp
qed

lemma zip_upt_drop:
  "m < length ps \<Longrightarrow>
   drop m (zip [0..<length ps] ps) = (m, ps ! m) # drop (Suc m) (zip [0..<length ps] ps)"
  using Cons_nth_drop_Suc [of m "zip [0..<length ps] ps"] by simp

text \<open>
  With the draws \<open>degree_draws\<close> the scan of node 0 pushes five segments to node 1 and the
  scan of node 1 pushes five segments to node 0.
\<close>

lemma degree_scans:
  "scan_node degree_draws (fibonacci_nodes 1200) 0 (fibonacci_node 1200 0) 30 0 0 =
     Inr (replicate 5 (fibonacci_node 1200 0, fibonacci_node 1200 1), 5)"
  "scan_node degree_draws (fibonacci_nodes 1200) (Suc 0) (fibonacci_node 1200 1) 30 0 5 =
     Inr (replicate 5 (fibonacci_node 1200 1, fibonacci_node 1200 0), 10)"
proof -
  let ?ps = "fibonacci_nodes 1200"
  have n: "fibonacci_nodes 1200 ! 1 = fibonacci_node 1200 1"
    "fibonacci_nodes 1200 ! 0 = fibonacci_node 1200 0"
    by (simp_all add: fibonacci_nodes_nth(2))
  have "scan_node degree_draws ?ps 0 (fibonacci_node 1200 0) 30 0 0 =
      Inr (replicate (5 - 0) (fibonacci_node 1200 0, ?ps ! 1), 0 + (5 - 0))"
  proof (rule scan_node_repeat [where x = "101 / 200"])
    show "1 < length ?ps" by (simp add: fibonacci_nodes_nth(1))
    show "(0::nat) \<noteq> 1" by simp
    show "distanceTo (fibonacci_node 1200 0) (?ps ! 1) < 0.35"
      by (simp only: n fibonacci_first_near(1))
    show "js_rem (int 0 + \<lfloor>101 / 200 * 200 :: real\<rfloor> - 100 + int (length ?ps)) (int (length ?ps))
        = int 1"
      by (simp add: fibonacci_nodes_nth(1) js_rem_def)
    show "(0::nat) \<le> 4" "5 - 0 \<le> (30::nat)" by simp_all
    show "\<forall>n < 5 - 0. degree_draws (0 + n) = 101 / 200"
      by (simp add: degree_draws_def)
  qed
  then show "scan_node degree_draws ?ps 0 (fibonacci_node 1200 0) 30 0 0 =
      Inr (replicate 5 (fibonacci_node 1200 0, fibonacci_node 1200 1), 5)"
    by (simp only: n) simp
  have "scan_node degree_draws ?ps (Suc 0) (fibonacci_node 1200 1) 30 0 5 =
      Inr (replicate (5 - 0) (fibonacci_node 1200 1, ?ps ! 0), 5 + (5 - 0))"
  proof (rule scan_node_repeat [where x = "99 / 200"])
    show "0 < length ?ps" by (simp add: fibonacci_nodes_nth(1))
    show "Suc 0 \<noteq> 0" by simp
    show "distanceTo (fibonacci_node 1200 1) (?ps ! 0) < 0.35"
      by (simp only: n fibonacci_first_near(2))
    show "js_rem (int (Suc 0) + \<lfloor>99 / 200 * 200 :: real\<rfloor> - 100 + int (length ?ps))
        (int (length ?ps)) = int 0"
      by (simp add: fibonacci_nodes_nth(1) js_rem_def)
    show "(0::nat) \<le> 4" "5 - 0 \<le> (30::nat)" by simp_all
    show "\<forall>n < 5 - 0. degree_draws (5 + n) = 99 / 200"
      by (simp add: degree_draws_def)
  qed
  then show "scan_node degree_draws ?ps (Suc 0) (fibonacci_node 1200 1) 30 0 5 =
      Inr (replicate 5 (fibonacci_node 1200 1, fibonacci_node 1200 0), 10)"
    by (simp only: n) simp
qed

text \<open>
  The claim as stated fails in the Fibonacci variant: the cap of 5 bounds what the scan
  of one node pushes, not the segments that end at a node. With the draws \<open>degree_draws\<close>
  the 1200 nodes are connected without an error, and node 0 is an end of more than 5 of
  the segments.
\<close>

theorem node_in_more_than_five_segments:
  "(case connect_close degree_draws (fibonacci_nodes 1200)
           (zip [0..<1200] (fibonacci_nodes 1200)) 0 of
      Inl e \<Rightarrow> False
    | Inr (segs, c) \<Rightarrow>
        5 < length (filter (\<lambda>(a, b). a = fibonacci_node 1200 0 \<or> b = fibonacci_node 1200 0)
                      (concat segs)))"
proof -
  let ?ps = "fibonacci_nodes 1200"
  let ?z = "zip [0..<length ?ps] ?ps"
  let ?P = "\<lambda>(a, b). a = fibonacci_node 1200 0 \<or> b = fibonacci_node 1200 0"
  have l: "length ?ps = 1200" by (rule fibonacci_nodes_nth(1))
  have n: "?ps ! 0 = fibonacci_node 1200 0" "?ps ! Suc 0 = fibonacci_node 1200 1"
    by (simp_all add: fibonacci_nodes_nth(2))
  have "?z = drop 0 ?z" by simp
  also have "\<dots> = (0, ?ps ! 0) # drop (Suc 0) ?z"
    by (rule zip_upt_drop) (simp add: l)
  also have "drop (Suc 0) ?z = (Suc 0, ?ps ! Suc 0) # drop (Suc (Suc 0)) ?z"
    by (rule zip_upt_drop) (simp add: l)
  finally have z: "zip [0..<1200] ?ps =
      (0, fibonacci_node 1200 0) # (Suc 0, fibonacci_node 1200 1) # drop (Suc (Suc 0)) ?z"
    by (simp only: l n)
  have "100 \<le> length ?ps" by (simp add: l)
  with degree_draws_valid obtain others c where
    o: "connect_close degree_draws ?ps (drop (Suc (Suc 0)) ?z) 10 = Inr (others, c)"
    using connect_close_total [of degree_draws ?ps "drop (Suc (Suc 0)) ?z" 10]
    by (metis surj_pair)
  have r: "connect_close degree_draws ?ps (zip [0..<1200] ?ps) 0 =
      Inr (replicate 5 (fibonacci_node 1200 0, fibonacci_node 1200 1)
           # replicate 5 (fibonacci_node 1200 1, fibonacci_node 1200 0) # others, c)"
    unfolding z connect_close.simps degree_scans sum.case prod.case o ..
  have "5 < length (filter ?P (replicate 5 (fibonacci_node 1200 0, fibonacci_node 1200 1)))
      + (length (filter ?P (replicate 5 (fibonacci_node 1200 1, fibonacci_node 1200 0)))
         + length (filter ?P (concat others)))"
    by simp
  then show ?thesis
    unfolding r sum.case prod.case concat.simps filter_append length_append .
qed

section \<open>C4: long arcs\<close>

lemma resample_result:
  "resample rnd nodes n1 idx2 attempts c = Inr (idx2', attempts', c') \<Longrightarrow> attempts \<le> 10 \<Longrightarrow>
   attempts' \<le> 10 \<and>
   (\<exists>n2. node_at nodes idx2' = Inr n2 \<and>
      (\<not> distanceTo (basePosition n1) (basePosition n2) < 1.2 \<or> attempts' = 10))"
proof (induction rnd nodes n1 idx2 attempts c rule: resample.induct)
  case (1 rnd nodes n1 idx2 attempts c)
  note eq = resample.simps [of rnd nodes n1 idx2 attempts c]
  from "1.prems"(1) obtain n2 where n2: "node_at nodes idx2 = Inr n2"
    by (cases "node_at nodes idx2") (simp_all add: eq)
  show ?case
  proof (cases "distanceTo (basePosition n1) (basePosition n2) < 1.2 \<and> attempts < 10")
    case True
    have "resample rnd nodes n1 idx2 attempts c =
        resample rnd nodes n1 (random_index rnd c (length nodes)) (attempts + 1) (c + 1)"
      using True by (simp add: eq n2)
    then have r: "resample rnd nodes n1 (random_index rnd c (length nodes)) (attempts + 1) (c + 1)
        = Inr (idx2', attempts', c')"
      using "1.prems"(1) by simp
    have le: "attempts + 1 \<le> 10" using True by simp
    show ?thesis
      by (rule "1.IH" [OF n2 True r le])
  next
    case False
    have "resample rnd nodes n1 idx2 attempts c = Inr (idx2, attempts, c)"
      by (simp only: eq n2 sum.case if_not_P [OF False])
    then have "idx2' = idx2" "attempts' = attempts"
      using "1.prems"(1) by simp_all
    then show ?thesis
      using False n2 "1.prems"(2) by auto
  qed
qed

lemma node_at_Inr: "node_at nodes idx = Inr n \<Longrightarrow> 0 \<le> idx \<and> nat idx < length nodes \<and> nodes ! nat idx = n"
  by (auto simp: node_at_def split: if_splits)

lemma long_arc_ok:
  assumes "long_arc rnd nodes c = Inr (a, c')"
  shows "long_ok nodes a"
proof -
  let ?i1 = "random_index rnd c (length nodes)"
  let ?i2 = "random_index rnd (c + 1) (length nodes)"
  from assms obtain n1 where n1: "node_at nodes ?i1 = Inr n1"
    by (cases "node_at nodes ?i1") (simp_all add: long_arc_def Let_def)
  from assms n1 obtain idx2' attempts c1 where
    r: "resample rnd nodes n1 ?i2 0 (c + 2) = Inr (idx2', attempts, c1)"
    by (cases "resample rnd nodes n1 ?i2 0 (c + 2)") (auto simp: long_arc_def Let_def)
  from assms n1 r obtain n2 where n2: "node_at nodes idx2' = Inr n2"
    by (cases "node_at nodes idx2'") (simp_all add: long_arc_def Let_def)
  from assms n1 r n2 have a: "a = (\<lparr>node1 = nat ?i1, node2 = nat idx2',
        linePulsePhase = rnd c1 * pi * 2, linePulseSpeed = 0.3 + rnd (c1 + 1) * 0.4,
        isLongArc = True,
        points = build_points 25 1.006 (basePosition n1) (basePosition n2),
        opacity = 0.7\<rparr>, attempts)"
    by (simp add: long_arc_def Let_def)
  from resample_result [OF r] n2 have
    res: "attempts \<le> 10" "\<not> distanceTo (basePosition n1) (basePosition n2) < 1.2 \<or> attempts = 10"
    by simp_all
  show ?thesis
    using node_at_Inr [OF n1] node_at_Inr [OF n2] res
    by (auto simp: a long_ok_def)
qed

lemma long_arcs_ok:
  "long_arcs rnd nodes k c = Inr (arcs, c') \<Longrightarrow> length arcs = k \<and> (\<forall>a \<in> set arcs. long_ok nodes a)"
proof (induction k arbitrary: c arcs c')
  case 0
  then show ?case by simp
next
  case (Suc k)
  from Suc.prems obtain a c1 rest where
    a: "long_arc rnd nodes c = Inr (a, c1)"
    and rest: "long_arcs rnd nodes k c1 = Inr (rest, c')"
    and arcs: "arcs = a # rest"
    by (auto split: sum.splits)
  from long_arc_ok [OF a] Suc.IH [OF rest] arcs show ?case by simp
qed

lemma vec_at_Inr: "vec_at ps idx = Inr p \<Longrightarrow> 0 \<le> idx \<and> nat idx < length ps \<and> ps ! nat idx = p"
  by (auto simp: vec_at_def split: if_splits)

lemma data_arcs_ok:
  "data_arcs rnd ps k c = Inr (arcs, c') \<Longrightarrow> length arcs \<le> k \<and> (\<forall>a \<in> set arcs. data_ok ps a)"
proof (induction k arbitrary: c arcs c')
  case 0
  then show ?case by simp
next
  case (Suc k)
  let ?i1 = "random_index rnd c (length ps)"
  let ?i2 = "random_index rnd (c + 1) (length ps)"
  show ?case
  proof (cases "?i1 = ?i2")
    case True
    then have "data_arcs rnd ps k (c + 2) = Inr (arcs, c')"
      using Suc.prems by (simp add: Let_def)
    from Suc.IH [OF this] show ?thesis by simp
  next
    case ne: False
    from Suc.prems ne obtain v1 where v1: "vec_at ps ?i1 = Inr v1"
      by (cases "vec_at ps ?i1") (simp_all add: Let_def)
    from Suc.prems ne v1 obtain v2 where v2: "vec_at ps ?i2 = Inr v2"
      by (cases "vec_at ps ?i2") (simp_all add: Let_def)
    show ?thesis
    proof (cases "distanceTo v1 v2 > 1.0")
      case False
      then have "data_arcs rnd ps k (c + 2) = Inr (arcs, c')"
        using Suc.prems ne v1 v2 by (simp add: Let_def)
      from Suc.IH [OF this] show ?thesis by simp
    next
      case True
      from Suc.prems ne v1 v2 True obtain rest where
        rest: "data_arcs rnd ps k (c + 4) = Inr (rest, c')"
        and arcs: "arcs = (createArc rnd (c + 2) v1 v2 (0.1 + distanceTo v1 v2 * 0.2),
                           nat ?i1, nat ?i2) # rest"
        by (cases "data_arcs rnd ps k (c + 4)") (auto simp: Let_def)
      have "nat ?i1 \<noteq> nat ?i2"
        using ne vec_at_Inr [OF v1] vec_at_Inr [OF v2] by (simp add: eq_nat_nat_iff)
      then have "data_ok ps (createArc rnd (c + 2) v1 v2 (0.1 + distanceTo v1 v2 * 0.2),
                           nat ?i1, nat ?i2)"
        using True vec_at_Inr [OF v1] vec_at_Inr [OF v2] by (simp add: data_ok_def)
      with Suc.IH [OF rest] arcs show ?thesis by simp
    qed
  qed
qed

lemma sin_arccos_sq: "- 1 \<le> x \<Longrightarrow> x \<le> 1 \<Longrightarrow> (sin (arccos x))\<^sup>2 = 1 - x\<^sup>2" for x :: real
  by (simp add: sin_squared_eq)

lemma boundary_nodes_eq:
  "boundary_nodes =
     [\<lparr>basePosition = Vector3 0 0 (- 1.005), pulsePhase = 0, pulseSpeed = 0.3, index = 0\<rparr>,
      \<lparr>basePosition = Vector3 (1.005 * sin (arccos (- 1289 / 4489))) 0 (1.005 * (- 1289 / 4489)),
       pulsePhase = 0, pulseSpeed = 0.3, index = 1\<rparr>]"
  by (simp add: boundary_nodes_def eval_nat_numeral random_node_def boundary_draws_def Let_def)

lemma boundary_distance:
  "distanceTo (basePosition (boundary_nodes ! 0)) (basePosition (boundary_nodes ! Suc 0)) = 1.2"
proof -
  have s: "(sin (arccos (- 1289 / 4489 :: real)))\<^sup>2 = 1 - (- 1289 / 4489)\<^sup>2"
    by (rule sin_arccos_sq) simp_all
  have "distanceTo (basePosition (boundary_nodes ! 0)) (basePosition (boundary_nodes ! Suc 0))
      = sqrt (1.005\<^sup>2 * (sin (arccos (- 1289 / 4489)))\<^sup>2 + (- 1.005 - 1.005 * (- 1289 / 4489))\<^sup>2)"
    by (simp add: boundary_nodes_eq distanceTo_def Vector3_def Let_def power2_eq_square algebra_simps)
  also have "\<dots> = sqrt (1.2\<^sup>2)"
    by (simp only: s) (simp add: power2_eq_square)
  also have "\<dots> = 1.2" by simp
  finally show ?thesis .
qed


lemma boundary_indices:
  "random_index boundary_draws 8 (length boundary_nodes) = 0"
  "random_index boundary_draws 9 (length boundary_nodes) = 1"
  by (simp_all add: random_index_def boundary_draws_def boundary_nodes_eq)

lemma boundary_node_at:
  "node_at boundary_nodes 0 = Inr (boundary_nodes ! 0)"
  "node_at boundary_nodes 1 = Inr (boundary_nodes ! 1)"
  by (simp_all add: node_at_def boundary_nodes_eq)

lemma boundary_resample:
  "resample boundary_draws boundary_nodes (boundary_nodes ! 0) 1 0 10 = Inr (1, 0, 10)"
  by (simp add: resample.simps [of boundary_draws boundary_nodes "boundary_nodes ! 0" 1 0 10]
      boundary_node_at boundary_distance)

lemma boundary_long_arc:
  "long_arc boundary_draws boundary_nodes 8 = Inr ((boundary_arc, 0), 12)"
  unfolding long_arc_def Let_def boundary_indices boundary_arc_def
  by (simp add: boundary_indices boundary_node_at boundary_resample boundary_draws_def)

lemma far_data_arcs:
  "data_arcs boundary_draws [far1, far2] 1 8 =
     Inr ([(createArc boundary_draws 10 far1 far2 (0.1 + distanceTo far1 far2 * 0.2), 0, 1)], 12)"
proof -
  have d: "distanceTo far1 far2 = 2.01"
  proof -
    have "distanceTo far1 far2 = sqrt (2.01\<^sup>2)"
      by (simp add: distanceTo_def far1_def far2_def Vector3_def Let_def power2_eq_square)
    then show ?thesis by simp
  qed
  have i: "random_index boundary_draws 8 (Suc (Suc 0)) = 0"
    "random_index boundary_draws 9 (Suc (Suc 0)) = 1"
    by (simp_all add: random_index_def boundary_draws_def)
  show ?thesis
    by (simp add: i d vec_at_def Let_def)
qed


lemma boundary_long_arcs:
  "long_arcs boundary_draws boundary_nodes 1 8 = Inr ([(boundary_arc, 0)], 12)"
  by (simp add: boundary_long_arc)

text \<open>
  C4 (as amended). Uniform-random variant: exactly \<open>longArcCount\<close> arcs are built when none
  throws, each between two nodes, after at most 10 resampling attempts, and for each arc
  either the chord distance of its endpoints is at least 1.2 (the loop stops as soon as the
  distance is not below 1.2) or all 10 attempts were used. Fibonacci variant: a pair is
  drawn once for each of the passes, never resampled, and every arc that is built joins
  two different nodes whose chord distance is above 1.0.
\<close>

theorem long_arcs_far_or_exhausted:
  "(long_arcs rnd nodes k c = Inr (arcs, c') \<longrightarrow>
      length arcs = k \<and>
      (\<forall>(conn, attempts) \<in> set arcs.
         isLongArc conn \<and> node1 conn < length nodes \<and> node2 conn < length nodes \<and>
         attempts \<le> 10 \<and>
         (1.2 \<le> distanceTo (basePosition (nodes ! node1 conn)) (basePosition (nodes ! node2 conn))
          \<or> attempts = 10))) \<and>
   (data_arcs rnd' ps k' d = Inr (lines, d') \<longrightarrow>
      length lines \<le> k' \<and>
      (\<forall>(line, i1, i2) \<in> set lines.
         i1 \<noteq> i2 \<and> i1 < length ps \<and> i2 < length ps \<and> 1.0 < distanceTo (ps ! i1) (ps ! i2)))"
proof (intro conjI impI)
  assume "long_arcs rnd nodes k c = Inr (arcs, c')"
  then have r: "length arcs = k \<and> (\<forall>a \<in> set arcs. long_ok nodes a)"
    by (rule long_arcs_ok)
  then show "length arcs = k" by simp
  from r show "\<forall>(conn, attempts) \<in> set arcs.
         isLongArc conn \<and> node1 conn < length nodes \<and> node2 conn < length nodes \<and>
         attempts \<le> 10 \<and>
         (1.2 \<le> distanceTo (basePosition (nodes ! node1 conn)) (basePosition (nodes ! node2 conn))
          \<or> attempts = 10)"
    by (auto simp: long_ok_def)
next
  assume "data_arcs rnd' ps k' d = Inr (lines, d')"
  then have r: "length lines \<le> k' \<and> (\<forall>a \<in> set lines. data_ok ps a)"
    by (rule data_arcs_ok)
  then show "length lines \<le> k'" by simp
  from r show "\<forall>(line, i1, i2) \<in> set lines.
         i1 \<noteq> i2 \<and> i1 < length ps \<and> i2 < length ps \<and> 1.0 < distanceTo (ps ! i1) (ps ! i2)"
    by (auto simp: data_ok_def)
qed

theorem long_arcs_far_or_exhausted_witness:
  "long_arcs boundary_draws boundary_nodes 1 8 = Inr ([(boundary_arc, 0)], 12) \<and>
   1.2 \<le> distanceTo (basePosition (boundary_nodes ! node1 boundary_arc))
            (basePosition (boundary_nodes ! node2 boundary_arc)) \<and>
   data_arcs boundary_draws [far1, far2] 1 8 =
     Inr ([(createArc boundary_draws 10 far1 far2 (0.1 + distanceTo far1 far2 * 0.2), 0, 1)], 12) \<and>
   1.0 < distanceTo ([far1, far2] ! 0) ([far1, far2] ! 1)"
proof -
  let ?line = "createArc boundary_draws 10 far1 far2 (0.1 + distanceTo far1 far2 * 0.2)"
  note T = long_arcs_far_or_exhausted [of boundary_draws boundary_nodes 1 8
      "[(boundary_arc, 0)]" 12 boundary_draws "[far1, far2]" 1 8 "[(?line, 0, 1)]" 12]
  note TA = T [THEN conjunct1, THEN mp, OF boundary_long_arcs, THEN conjunct2]
  note TB = T [THEN conjunct2, THEN mp, OF far_data_arcs, THEN conjunct2]
  have m: "(boundary_arc, 0) \<in> set [(boundary_arc, 0::nat)]" by simp
  have a: "1.2 \<le> distanceTo (basePosition (boundary_nodes ! node1 boundary_arc))
            (basePosition (boundary_nodes ! node2 boundary_arc))"
    using bspec [OF TA m] by simp
  have m': "(?line, 0, 1) \<in> set [(?line, 0::nat, 1::nat)]" by simp
  have b: "1.0 < distanceTo ([far1, far2] ! 0) ([far1, far2] ! 1)"
    using bspec [OF TB m'] by simp
  from a b boundary_long_arcs far_data_arcs show ?thesis by blast
qed

text \<open>
  The claim as stated asks for a distance above 1.2 unless the budget is exhausted. The
  draws \<open>boundary_draws\<close> place two nodes at chord distance exactly 1.2 and pick them for a
  long arc: the arc is built with no resampling attempt, although its distance does not
  exceed 1.2.
\<close>

theorem long_arc_at_threshold:
  "long_arc boundary_draws boundary_nodes 8 = Inr ((boundary_arc, 0), 12) \<and>
   \<not> 1.2 < distanceTo (basePosition (boundary_nodes ! node1 boundary_arc))
              (basePosition (boundary_nodes ! node2 boundary_arc)) \<and>
   (0::nat) \<noteq> 10"
  by (simp add: boundary_long_arc boundary_arc_def boundary_distance)

section \<open>A hundred frames from a fresh scene\<close>

lemma random_index_range:
  assumes "valid_rng rnd" and "0 < n"
  shows "0 \<le> random_index rnd c n" and "random_index rnd c n < int n"
proof -
  have r: "0 \<le> rnd c" "rnd c < 1" using assms(1) by (simp_all add: valid_rng_def)
  then have "0 \<le> rnd c * real n" by simp
  then show "0 \<le> random_index rnd c n" by (simp add: random_index_def)
  have "rnd c * real n < 1 * real n"
    using r(2) assms(2) by (simp only: mult_strict_right_mono of_nat_0_less_iff)
  then have "rnd c * real n < real_of_int (int n)" by simp
  then show "random_index rnd c n < int n"
    unfolding random_index_def by (simp only: floor_less_iff)
qed

lemma node_at_range: "0 \<le> idx \<Longrightarrow> idx < int (length nodes) \<Longrightarrow> node_at nodes idx = Inr (nodes ! nat idx)"
  by (simp add: node_at_def)

lemma resample_total:
  "valid_rng rnd \<Longrightarrow> nodes \<noteq> [] \<Longrightarrow> 0 \<le> idx2 \<Longrightarrow> idx2 < int (length nodes) \<Longrightarrow>
   \<exists>r. resample rnd nodes n1 idx2 attempts c = Inr r"
proof (induction rnd nodes n1 idx2 attempts c rule: resample.induct)
  case (1 rnd nodes n1 idx2 attempts c)
  note eq = resample.simps [of rnd nodes n1 idx2 attempts c]
  have n2: "node_at nodes idx2 = Inr (nodes ! nat idx2)"
    using "1.prems"(3,4) by (rule node_at_range)
  have pos: "0 < length nodes" using "1.prems"(2) by simp
  show ?case
  proof (cases "distanceTo (basePosition n1) (basePosition (nodes ! nat idx2)) < 1.2 \<and> attempts < 10")
    case True
    have "\<exists>r. resample rnd nodes n1 (random_index rnd c (length nodes)) (attempts + 1) (c + 1) = Inr r"
      using "1.IH" [OF n2 True "1.prems"(1,2) random_index_range [OF "1.prems"(1) pos]] .
    then show ?thesis
      by (simp only: eq n2 sum.case if_P [OF True])
  next
    case False
    show ?thesis
      by (simp only: eq n2 sum.case if_not_P [OF False]) blast
  qed
qed

lemma long_arc_total:
  assumes v: "valid_rng rnd" and ne: "nodes \<noteq> []"
  shows "\<exists>r. long_arc rnd nodes c = Inr r"
proof -
  have pos: "0 < length nodes" using ne by simp
  let ?i1 = "random_index rnd c (length nodes)"
  let ?i2 = "random_index rnd (c + 1) (length nodes)"
  have n1: "node_at nodes ?i1 = Inr (nodes ! nat ?i1)"
    using random_index_range [OF v pos] by (rule node_at_range)
  obtain idx2' attempts c1 where
    r: "resample rnd nodes (nodes ! nat ?i1) ?i2 0 (c + 2) = Inr (idx2', attempts, c1)"
    using resample_total [OF v ne random_index_range [OF v pos, of "c + 1"],
        of "nodes ! nat ?i1" 0 "c + 2"]
    by (metis prod_cases3)
  from resample_result [OF r] obtain n2 where n2: "node_at nodes idx2' = Inr n2"
    by auto
  show ?thesis
    unfolding long_arc_def Let_def n1 sum.case r prod.case n2 by blast
qed

lemma long_arcs_total:
  assumes v: "valid_rng rnd" and ne: "nodes \<noteq> []"
  shows "\<exists>r. long_arcs rnd nodes k c = Inr r"
proof (induction k arbitrary: c)
  case 0
  show ?case by simp
next
  case (Suc k)
  obtain a c1 where a: "long_arc rnd nodes c = Inr (a, c1)"
    using long_arc_total [OF v ne, of c] by (metis surj_pair)
  obtain rest c2 where rest: "long_arcs rnd nodes k c1 = Inr (rest, c2)"
    using Suc.IH [of c1] by (metis surj_pair)
  show ?case by (simp add: a rest)
qed

lemma random_nodes_length: "length (fst (random_nodes rnd c i k)) = k"
proof (induction k arbitrary: c i)
  case 0
  show ?case by simp
next
  case (Suc k)
  obtain rest c' where r: "random_nodes rnd (c + 4) (Suc i) k = (rest, c')"
    by fastforce
  have "length rest = k" using Suc.IH [of "c + 4" "Suc i"] by (simp add: r)
  then show ?case by (simp add: Let_def r)
qed

lemma initEarth_total:
  assumes v: "valid_rng rnd" and n: "0 < nodeCount"
  shows "\<exists>s. initEarth rnd nodeCount = Inr s"
proof -
  obtain nodes c1 where nodes: "random_nodes rnd 0 0 nodeCount = (nodes, c1)"
    by (cases "random_nodes rnd 0 0 nodeCount")
  obtain short cnt c2 where short: "connect_nodes rnd nodes c1 = (short, cnt, c2)"
    by (cases "connect_nodes rnd nodes c1")
  have "length nodes = nodeCount"
    using random_nodes_length [of rnd 0 0 nodeCount] by (simp add: nodes)
  then have ne: "nodes \<noteq> []" using n by auto
  obtain arcs c3 where arcs: "long_arcs rnd nodes longArcCount c2 = Inr (arcs, c3)"
    using long_arcs_total [OF v ne, of longArcCount c2] by (metis surj_pair)
  show ?thesis
    by (simp add: initEarth_def nodes short arcs)
qed

lemma initEarth_fresh:
  assumes "initEarth rnd nodeCount = Inr s"
  shows "frameCount s = 0" and "time s = 0" and "earth_rotation_y s = 0"
    and "positions s = fst (random_nodes rnd 0 0 nodeCount)"
    and "instances s = map (\<lambda>nd. \<lparr>scale = 1, position = basePosition nd\<rparr>) (positions s)"
    and "scene_wf s"
proof -
  obtain nodes c1 where nodes: "random_nodes rnd 0 0 nodeCount = (nodes, c1)"
    by (cases "random_nodes rnd 0 0 nodeCount")
  obtain short cnt c2 where short: "connect_nodes rnd nodes c1 = (short, cnt, c2)"
    by (cases "connect_nodes rnd nodes c1")
  from assms nodes short obtain arcs c3 where
    arcs: "long_arcs rnd nodes longArcCount c2 = Inr (arcs, c3)"
    by (cases "long_arcs rnd nodes longArcCount c2") (auto simp: initEarth_def)
  from assms have s: "s = \<lparr>frameCount = 0, time = 0, earth_rotation_y = 0,
                  earth_material = \<lparr>color = 659226, emissive = 0, has_map = False\<rparr>,
                  positions = nodes,
                  instances = map (\<lambda>nd. \<lparr>scale = 1, position = basePosition nd\<rparr>) nodes,
                  emissiveIntensity = 1.5,
                  connections = short @ map fst arcs\<rparr>"
    by (simp add: initEarth_def nodes short arcs)
  show "frameCount s = 0" "time s = 0" "earth_rotation_y s = 0"
    "positions s = fst (random_nodes rnd 0 0 nodeCount)"
    "instances s = map (\<lambda>nd. \<lparr>scale = 1, position = basePosition nd\<rparr>) (positions s)"
    by (simp_all add: s nodes)
  have "short_inv nodes (short, cnt, c2)"
    using connect_nodes_inv [of nodes rnd c1] by (simp only: short)
  then have a: "\<forall>conn \<in> set short. node1 conn < length nodes \<and> node2 conn < length nodes"
    by (auto simp: short_inv_def short_ok_def)
  have "\<forall>a \<in> set arcs. long_ok nodes a"
    using long_arcs_ok [OF arcs] by simp
  then have b: "\<forall>conn \<in> set (map fst arcs). node1 conn < length nodes \<and> node2 conn < length nodes"
    by (auto simp: long_ok_def)
  show "scene_wf s"
    using a b by (auto simp: scene_wf_def s)
qed

lemma half_angle_id: "(1 - 2 * (sin h)\<^sup>2)\<^sup>2 + (2 * cos h * sin h)\<^sup>2 = 1" for h :: real
proof -
  have c: "(cos h)\<^sup>2 = 1 - (sin h)\<^sup>2" by (simp add: cos_squared_eq)
  have "(1 - 2 * (sin h)\<^sup>2)\<^sup>2 + (2 * cos h * sin h)\<^sup>2
      = 1 - 4 * (sin h)\<^sup>2 + 4 * (sin h)\<^sup>2 * (sin h)\<^sup>2 + 4 * (cos h)\<^sup>2 * (sin h)\<^sup>2"
    by (simp add: power2_eq_square algebra_simps)
  also have "\<dots> = 1"
    by (simp add: c algebra_simps)
  finally show ?thesis .
qed

lemma applyAxisAngle_y:
  "applyAxisAngle v (Vector3 0 1 0) a =
     Vector3 (vx v * (1 - 2 * (sin (a / 2))\<^sup>2) + vz v * (2 * cos (a / 2) * sin (a / 2)))
             (vy v)
             (vz v * (1 - 2 * (sin (a / 2))\<^sup>2) - vx v * (2 * cos (a / 2) * sin (a / 2)))"
  by (simp add: applyAxisAngle_def Vector3_def Let_def power2_eq_square algebra_simps)

lemma turn_sq:
  "(x * m + z * n) * (x * m + z * n) + (z * m - x * n) * (z * m - x * n)
     = (x * x + z * z) * (m\<^sup>2 + n\<^sup>2)" for x :: real
  by (simp add: power2_eq_square algebra_simps)

lemma applyAxisAngle_y_length: "vlength (applyAxisAngle v (Vector3 0 1 0) a) = vlength v"
proof -
  have "vx (applyAxisAngle v (Vector3 0 1 0) a) * vx (applyAxisAngle v (Vector3 0 1 0) a)
      + vz (applyAxisAngle v (Vector3 0 1 0) a) * vz (applyAxisAngle v (Vector3 0 1 0) a)
      = vx v * vx v + vz v * vz v"
    unfolding applyAxisAngle_y
    by (simp add: Vector3_def turn_sq half_angle_id)
  moreover have "vy (applyAxisAngle v (Vector3 0 1 0) a) = vy v"
    unfolding applyAxisAngle_y by (simp add: Vector3_def)
  ultimately show ?thesis
    by (simp add: vlength_def)
qed

lemma recompute_curves_total:
  "\<forall>conn \<in> set conns. node1 conn < length nodes \<and> node2 conn < length nodes \<Longrightarrow>
   \<exists>conns'. recompute_curves nodes rot conns = Inr conns' \<and>
      map node1 conns' = map node1 conns \<and> map node2 conns' = map node2 conns \<and>
      map opacity conns' = map opacity conns"
proof (induction conns)
  case Nil
  show ?case by simp
next
  case (Cons conn conns)
  have c: "node1 conn < length nodes" "node2 conn < length nodes"
    using Cons.prems by simp_all
  from Cons obtain conns' where r: "recompute_curves nodes rot conns = Inr conns'"
    and m: "map node1 conns' = map node1 conns" "map node2 conns' = map node2 conns"
      "map opacity conns' = map opacity conns"
    by auto
  show ?case
    using c by (simp add: recompute_curve_def node_at_def Let_def r m)
qed

lemma animate_step:
  assumes wf: "scene_wf s"
  shows "\<exists>s'. animate s = Inr s' \<and> scene_wf s' \<and> positions s' = positions s \<and>
     frameCount s' = frameCount s + 1 \<and>
     earth_rotation_y s' = earth_rotation_y s + 0.002 \<and>
     instances s' = map (animate_node ((frameCount s + 1) mod 2 = 0) (time s + 0.01)
                      (earth_rotation_y s + 0.002)) (positions s)"
proof -
  let ?f = "frameCount s + 1" and ?t = "time s + 0.01" and ?rot = "earth_rotation_y s + 0.002"
  define s1 where "s1 = s\<lparr>frameCount := ?f, time := ?t, earth_rotation_y := ?rot,
                 instances := map (animate_node (?f mod 2 = 0) ?t ?rot) (positions s),
                 emissiveIntensity :=
                   (if ?f mod 2 = 0 then 1.5 * (sin (?t * 0.8) * 0.3 + 0.7)
                    else emissiveIntensity s)\<rparr>"
  define s2 where "s2 = (if ?f mod 2 = 0
                then s1\<lparr>connections := map (pulse_connection ?t) (connections s1)\<rparr>
                else s1)"
  have an: "animate s =
      (if ?f mod 3 = 0 then
           (case recompute_curves (positions s2) ?rot (connections s2) of
              Inl e \<Rightarrow> Inl e
            | Inr conns \<Rightarrow> Inr (s2\<lparr>connections := conns\<rparr>))
         else Inr s2)"
    unfolding animate_def Let_def s2_def s1_def ..
  have p1: "positions s1 = positions s" "frameCount s1 = ?f" "earth_rotation_y s1 = ?rot"
    "instances s1 = map (animate_node (?f mod 2 = 0) ?t ?rot) (positions s)"
    "connections s1 = connections s"
    by (simp_all add: s1_def)
  have p2: "positions s2 = positions s" "frameCount s2 = ?f" "earth_rotation_y s2 = ?rot"
    "instances s2 = map (animate_node (?f mod 2 = 0) ?t ?rot) (positions s)"
    by (simp_all add: s2_def p1)
  have wf2: "\<forall>conn \<in> set (connections s2).
      node1 conn < length (positions s2) \<and> node2 conn < length (positions s2)"
    using wf by (auto simp: scene_wf_def s2_def p1 pulse_connection_def Let_def)
  show ?thesis
  proof (cases "?f mod 3 = 0")
    case False
    have "animate s = Inr s2"
      by (simp only: an if_not_P [OF False])
    then show ?thesis
      using wf2 p2 by (simp add: scene_wf_def)
  next
    case True
    from recompute_curves_total [OF wf2, of ?rot] obtain conns where
      r: "recompute_curves (positions s2) ?rot (connections s2) = Inr conns"
      and m: "map node1 conns = map node1 (connections s2)"
        "map node2 conns = map node2 (connections s2)"
      by blast
    have a: "animate s = Inr (s2\<lparr>connections := conns\<rparr>)"
      by (simp only: an if_P [OF True] r sum.case)
    have w: "\<forall>conn \<in> set conns.
        node1 conn < length (positions s) \<and> node2 conn < length (positions s)"
    proof
      fix conn assume "conn \<in> set conns"
      then obtain i where i: "i < length conns" "conns ! i = conn"
        by (auto simp: in_set_conv_nth)
      have l: "length conns = length (connections s2)"
        using m(1) by (metis length_map)
      have "node1 conn = node1 (connections s2 ! i)" "node2 conn = node2 (connections s2 ! i)"
        using i l m by (metis nth_map)+
      moreover have "connections s2 ! i \<in> set (connections s2)"
        using i l by simp
      ultimately show "node1 conn < length (positions s) \<and> node2 conn < length (positions s)"
        using wf2 p2(1) by metis
    qed
    show ?thesis
      using w p2 by (simp add: a scene_wf_def)
  qed
qed

lemma animate_node_position:
  "vlength (position (animate_node up tm rot nd)) = vlength (basePosition nd)"
  by (simp add: animate_node_def Let_def applyAxisAngle_y_length)

lemma frames_run:
  "scene_wf s \<Longrightarrow>
   \<exists>s'. frames n s = Inr s' \<and> scene_wf s' \<and> positions s' = positions s \<and>
     frameCount s' = frameCount s + n \<and>
     earth_rotation_y s' = earth_rotation_y s + 0.002 * real n \<and>
     (0 < n \<longrightarrow> (\<exists>up tm rot. instances s' = map (animate_node up tm rot) (positions s)))"
proof (induction n arbitrary: s)
  case 0
  then show ?case by simp
next
  case (Suc n)
  from animate_step [OF Suc.prems] obtain s1 where
    a: "animate s = Inr s1" and wf: "scene_wf s1" and p: "positions s1 = positions s"
    and f: "frameCount s1 = frameCount s + 1"
    and r: "earth_rotation_y s1 = earth_rotation_y s + 0.002"
    and i: "instances s1 = map (animate_node ((frameCount s + 1) mod 2 = 0) (time s + 0.01)
                      (earth_rotation_y s + 0.002)) (positions s)"
    by blast
  from Suc.IH [OF wf] obtain s' where
    fr: "frames n s1 = Inr s'" and wf': "scene_wf s'" and p': "positions s' = positions s1"
    and f': "frameCount s' = frameCount s1 + n"
    and r': "earth_rotation_y s' = earth_rotation_y s1 + 0.002 * real n"
    and i': "0 < n \<longrightarrow> (\<exists>up tm rot. instances s' = map (animate_node up tm rot) (positions s1))"
    by blast
  have fs: "frames (Suc n) s = Inr s'" by (simp add: a fr)
  have rot: "earth_rotation_y s' = earth_rotation_y s + 0.002 * real (Suc n)"
    by (simp add: r r' algebra_simps)
  have inst: "\<exists>up tm rot. instances s' = map (animate_node up tm rot) (positions s)"
  proof (cases "0 < n")
    case True
    then show ?thesis using i' p by simp
  next
    case False
    then have "s' = s1" using fr by simp
    then show ?thesis using i by blast
  qed
  show ?case
    using fs wf' p p' f f' rot inst by simp
qed

lemma mod_2pi_small: "0 \<le> x \<Longrightarrow> x < 4 \<Longrightarrow> mod_2pi x = x"
proof -
  assume x: "0 \<le> x" "x < 4"
  have "4 \<le> 2 * pi" using pi_ge_two by simp
  then have "x / (2 * pi) < 1" using x by simp
  moreover have "0 \<le> x / (2 * pi)" using x by simp
  ultimately have "\<lfloor>x / (2 * pi)\<rfloor> = 0" by (simp add: floor_eq_iff)
  then show ?thesis by (simp add: mod_2pi_def)
qed

lemma plane_turn:
  "(c * x + s * z) * (c * x + s * z) + (c * z - s * x) * (c * z - s * x)
     = (x * x + z * z) * (c\<^sup>2 + s\<^sup>2)" for x :: real
  by (simp add: power2_eq_square algebra_simps)

lemma plane_turn':
  "(c * y - s * z) * (c * y - s * z) + (s * y + c * z) * (s * y + c * z)
     = (y * y + z * z) * (c\<^sup>2 + s\<^sup>2)" for y :: real
  by (simp add: power2_eq_square algebra_simps)

lemma rotate_y_length: "vlength (rotate_y a v) = vlength v"
proof -
  have "(cos a * vx v + sin a * vz v) * (cos a * vx v + sin a * vz v)
      + (cos a * vz v - sin a * vx v) * (cos a * vz v - sin a * vx v)
      = vx v * vx v + vz v * vz v"
    by (simp only: plane_turn sin_cos_squared_add2 mult_1_right)
  then have "(cos a * vx v + sin a * vz v) * (cos a * vx v + sin a * vz v) + vy v * vy v
      + (cos a * vz v - sin a * vx v) * (cos a * vz v - sin a * vx v)
      = vx v * vx v + vy v * vy v + vz v * vz v"
    by simp
  then show ?thesis
    by (simp only: vlength_def rotate_y_def Vector3_def vec3.select_convs)
qed

lemma rotate_x_length: "vlength (rotate_x a v) = vlength v"
proof -
  have "(cos a * vy v - sin a * vz v) * (cos a * vy v - sin a * vz v)
      + (sin a * vy v + cos a * vz v) * (sin a * vy v + cos a * vz v)
      = vy v * vy v + vz v * vz v"
    by (simp only: plane_turn' sin_cos_squared_add2 mult_1_right)
  then have "vx v * vx v + (cos a * vy v - sin a * vz v) * (cos a * vy v - sin a * vz v)
      + (sin a * vy v + cos a * vz v) * (sin a * vy v + cos a * vz v)
      = vx v * vx v + vy v * vy v + vz v * vz v"
    by simp
  then show ?thesis
    by (simp only: vlength_def rotate_x_def Vector3_def vec3.select_convs)
qed

lemma displayed_length: "vlength (displayed g p) = vlength p"
  by (simp add: displayed_def rotate_x_length rotate_y_length)

lemma animate_fibonacci_fields:
  "mouseX (animate_fibonacci g) = mouseX g"
  "mouseY (animate_fibonacci g) = mouseY g"
  "nodePositions (animate_fibonacci g) = nodePositions g"
  "rotation_y (animate_fibonacci g) = rotation_y g + 0.0008 + mouseX g * 0.08"
  "rotation_x (animate_fibonacci g) = rotation_x g + (mouseY g * 0.05 - rotation_x g) * 0.05"
  by (simp_all add: animate_fibonacci_def Let_def)

lemma animate_fibonacci_iter:
  "mouseX ((animate_fibonacci ^^ n) g) = mouseX g"
  "mouseY ((animate_fibonacci ^^ n) g) = mouseY g"
  "nodePositions ((animate_fibonacci ^^ n) g) = nodePositions g"
  by (induction n) (simp_all add: animate_fibonacci_fields)

lemma rotation_y_iter:
  "rotation_y ((animate_fibonacci ^^ n) g) = rotation_y g + real n * (0.0008 + mouseX g * 0.08)"
proof (induction n)
  case 0
  show ?case by simp
next
  case (Suc n)
  have "rotation_y ((animate_fibonacci ^^ Suc n) g)
      = rotation_y ((animate_fibonacci ^^ n) g) + (0.0008 + mouseX g * 0.08)"
    by (simp add: animate_fibonacci_fields animate_fibonacci_iter)
  also have "\<dots> = rotation_y g + (real n + 1) * (0.0008 + mouseX g * 0.08)"
    by (simp only: Suc.IH distrib_right mult_1 add.assoc)
  finally show ?case by (simp add: add.commute)
qed

lemma initEarth_fibonacci_fresh:
  assumes "initEarth_fibonacci rnd nodeCount halfX halfY = Inr g"
  shows "rotation_x g = 0" "rotation_y g = 0" "mouseX g = 0" "mouseY g = 0"
    "nodePositions g = fibonacci_nodes nodeCount"
  using assms
  by (auto simp: initEarth_fibonacci_def Let_def split: sum.splits)

lemma rotation_x_rest:
  "mouseY g = 0 \<Longrightarrow> rotation_x g = 0 \<Longrightarrow> rotation_x ((animate_fibonacci ^^ n) g) = 0"
  by (induction n) (simp_all add: animate_fibonacci_fields animate_fibonacci_iter)

lemma rotate_x_zero: "rotate_x 0 v = v"
  by (simp add: rotate_x_def Vector3_def)

lemma fresh_instances:
  assumes i: "initEarth rnd nodeCount = Inr s" and f: "frames k s = Inr s'"
    and m: "m \<in> set (instances s')"
  shows "vlength (position m) = 1.005"
proof -
  note fr = initEarth_fresh [OF i]
  from frames_run [OF fr(6), of k] f have
    inst: "0 < k \<longrightarrow> (\<exists>up tm rot. instances s' = map (animate_node up tm rot) (positions s))"
    by auto
  show ?thesis
  proof (cases "0 < k")
    case False
    then have "s' = s" using f by simp
    then obtain nd where "nd \<in> set (positions s)" "position m = basePosition nd"
      using m fr(5) by auto
    then show ?thesis
      using random_nodes_radius [of nd rnd 0 0 nodeCount] by (simp add: fr(4))
  next
    case True
    with inst obtain up tm rot where "instances s' = map (animate_node up tm rot) (positions s)"
      by blast
    then obtain nd where nd: "nd \<in> set (positions s)" "m = animate_node up tm rot nd"
      using m by auto
    have "vlength (position m) = vlength (basePosition nd)"
      by (simp only: nd(2) animate_node_position)
    then show ?thesis
      using random_nodes_radius [of nd rnd 0 0 nodeCount] nd(1) by (simp add: fr(4))
  qed
qed

lemma zero_draws_valid: "valid_rng zero_draws"
  by (simp add: valid_rng_def zero_draws_def)

lemma sample_scan_alone:
  "scan_node zero_draws [p] 0 p 30 0 c = Inr ([], c + 30)"
  by (simp add: eval_nat_numeral js_rem_def zero_draws_def Let_def)

lemma sample_arcs_alone:
  "data_arcs zero_draws [p] 30 c = Inr ([], c + 60)"
  by (simp add: eval_nat_numeral random_index_def zero_draws_def Let_def)

lemma sample_globe:
  "\<exists>g. initEarth_fibonacci zero_draws 1 0 0 = Inr g \<and> nodePositions g = [fibonacci_node 1 0]"
  by (simp add: initEarth_fibonacci_def fibonacci_nodes_def Let_def sample_scan_alone
      sample_arcs_alone arcCount_def)


text \<open>
  In the arithmetic of the reals: from a freshly built scene and with no pointer input,
  100 calls of the frame updater return and leave the rotation accumulator at 100 times
  the increment of one frame (100 * 0.002 in the uniform-random variant, 100 * 0.0008 in
  the Fibonacci variant), which is also its value modulo \<open>2 pi\<close>; and after every number
  of frames each node is drawn at distance 1.005 from the centre: the position in the
  instance matrix of the uniform-random variant, and the stored position turned about the
  y-axis by the group rotation in the Fibonacci variant. The sums and the rotations of the
  program are rounded, and rounding is not part of this model.
\<close>

lemma hundred_frames_exact:
  "(initEarth rnd nodeCount = Inr s \<longrightarrow>
      (\<exists>s'. frames 100 s = Inr s' \<and> earth_rotation_y s' = 100 * 0.002 \<and>
            mod_2pi (earth_rotation_y s') = 100 * 0.002) \<and>
      (\<forall>k. \<exists>s'. frames k s = Inr s' \<and>
            (\<forall>m \<in> set (instances s'). vlength (position m) = 1.005))) \<and>
   (initEarth_fibonacci rnd' nodeCount' halfX halfY = Inr g \<longrightarrow>
      rotation_y ((animate_fibonacci ^^ 100) g) = 100 * 0.0008 \<and>
      mod_2pi (rotation_y ((animate_fibonacci ^^ 100) g)) = 100 * 0.0008 \<and>
      (\<forall>k. \<forall>p \<in> set (nodePositions ((animate_fibonacci ^^ k) g)).
         displayed ((animate_fibonacci ^^ k) g) p = rotate_y (real k * 0.0008) p \<and>
         vlength (displayed ((animate_fibonacci ^^ k) g) p) = 1.005))"
proof (intro conjI impI allI)
  assume i: "initEarth rnd nodeCount = Inr s"
  note fr = initEarth_fresh [OF i]
  from frames_run [OF fr(6), of 100] obtain s' where
    f: "frames 100 s = Inr s'" and r: "earth_rotation_y s' = earth_rotation_y s + 0.002 * real 100"
    by blast
  have r': "earth_rotation_y s' = 100 * 0.002" using r fr(3) by simp
  have "mod_2pi (100 * 0.002) = 100 * 0.002" by (rule mod_2pi_small) simp_all
  then have "mod_2pi (earth_rotation_y s') = 100 * 0.002" by (simp only: r')
  with f r' show "\<exists>s'. frames 100 s = Inr s' \<and> earth_rotation_y s' = 100 * 0.002 \<and>
            mod_2pi (earth_rotation_y s') = 100 * 0.002"
    by blast
next
  fix k
  assume i: "initEarth rnd nodeCount = Inr s"
  note fr = initEarth_fresh [OF i]
  from frames_run [OF fr(6), of k] obtain s' where f: "frames k s = Inr s'"
    by blast
  have "\<forall>m \<in> set (instances s'). vlength (position m) = 1.005"
    using fresh_instances [OF i f] by blast
  with f show "\<exists>s'. frames k s = Inr s' \<and>
            (\<forall>m \<in> set (instances s'). vlength (position m) = 1.005)"
    by blast
next
  assume i: "initEarth_fibonacci rnd' nodeCount' halfX halfY = Inr g"
  note fr = initEarth_fibonacci_fresh [OF i]
  show r: "rotation_y ((animate_fibonacci ^^ 100) g) = 100 * 0.0008"
    by (simp add: rotation_y_iter fr)
  have "mod_2pi (100 * 0.0008) = 100 * 0.0008" by (rule mod_2pi_small) simp_all
  then show "mod_2pi (rotation_y ((animate_fibonacci ^^ 100) g)) = 100 * 0.0008"
    by (simp only: r)
next
  fix k
  assume i: "initEarth_fibonacci rnd' nodeCount' halfX halfY = Inr g"
  note fr = initEarth_fibonacci_fresh [OF i]
  show "\<forall>p \<in> set (nodePositions ((animate_fibonacci ^^ k) g)).
         displayed ((animate_fibonacci ^^ k) g) p = rotate_y (real k * 0.0008) p \<and>
         vlength (displayed ((animate_fibonacci ^^ k) g) p) = 1.005"
  proof
    fix p assume "p \<in> set (nodePositions ((animate_fibonacci ^^ k) g))"
    then have "p \<in> set (fibonacci_nodes nodeCount')"
      by (simp add: animate_fibonacci_iter fr)
    then obtain j where "p = fibonacci_node nodeCount' j"
      by (auto simp: fibonacci_nodes_def)
    then have len: "vlength p = 1.005" by (simp only: fibonacci_node_radius)
    have d: "displayed ((animate_fibonacci ^^ k) g) p = rotate_y (real k * 0.0008) p"
      by (simp add: displayed_def rotation_x_rest rotation_y_iter fr rotate_x_zero)
    have "vlength (displayed ((animate_fibonacci ^^ k) g) p) = vlength p"
      by (rule displayed_length)
    with d len show "displayed ((animate_fibonacci ^^ k) g) p = rotate_y (real k * 0.0008) p \<and>
         vlength (displayed ((animate_fibonacci ^^ k) g) p) = 1.005"
      by simp
  qed
qed

lemma hundred_frames_exact_sample:
  "(\<exists>s s'. initEarth zero_draws 1 = Inr s \<and> frames 100 s = Inr s' \<and>
       earth_rotation_y s' = 100 * 0.002 \<and> length (instances s') = 1 \<and>
       (\<forall>m \<in> set (instances s'). vlength (position m) = 1.005)) \<and>
   (\<exists>g. initEarth_fibonacci zero_draws 1 0 0 = Inr g \<and>
       rotation_y ((animate_fibonacci ^^ 100) g) = 100 * 0.0008 \<and>
       vlength (displayed ((animate_fibonacci ^^ 100) g) (fibonacci_node 1 0)) = 1.005)"
proof
  obtain s where s: "initEarth zero_draws 1 = Inr s"
    using initEarth_total [OF zero_draws_valid, of 1] by auto
  note T = hundred_frames_exact [of zero_draws 1 s zero_draws 1 0 0, THEN conjunct1, THEN mp, OF s]
  from T obtain s' where f: "frames 100 s = Inr s'" and r: "earth_rotation_y s' = 100 * 0.002"
    by blast
  from T obtain s'' where "frames 100 s = Inr s''"
    "\<forall>m \<in> set (instances s''). vlength (position m) = 1.005"
    by blast
  with f have on: "\<forall>m \<in> set (instances s'). vlength (position m) = 1.005"
    by simp
  note fr = initEarth_fresh [OF s]
  from frames_run [OF fr(6), of 100] f obtain up tm rot where
    "instances s' = map (animate_node up tm rot) (positions s)"
    by auto
  then have "length (instances s') = 1"
    by (simp add: fr(4) random_nodes_length)
  with s f r on show "\<exists>s s'. initEarth zero_draws 1 = Inr s \<and> frames 100 s = Inr s' \<and>
       earth_rotation_y s' = 100 * 0.002 \<and> length (instances s') = 1 \<and>
       (\<forall>m \<in> set (instances s'). vlength (position m) = 1.005)"
    by blast
next
  obtain g where g: "initEarth_fibonacci zero_draws 1 0 0 = Inr g"
    and n: "nodePositions g = [fibonacci_node 1 0]"
    using sample_globe by blast
  note T = hundred_frames_exact [of zero_draws 1 _ zero_draws 1 0 0 g, THEN conjunct2, THEN mp, OF g]
  from T have r: "rotation_y ((animate_fibonacci ^^ 100) g) = 100 * 0.0008"
    by blast
  from T have "\<forall>p \<in> set (nodePositions ((animate_fibonacci ^^ 100) g)).
      vlength (displayed ((animate_fibonacci ^^ 100) g) p) = 1.005"
    by blast
  then have "vlength (displayed ((animate_fibonacci ^^ 100) g) (fibonacci_node 1 0)) = 1.005"
    by (simp add: animate_fibonacci_iter n)
  with g r show "\<exists>g. initEarth_fibonacci zero_draws 1 0 0 = Inr g \<and>
       rotation_y ((animate_fibonacci ^^ 100) g) = 100 * 0.0008 \<and>
       vlength (displayed ((animate_fibonacci ^^ 100) g) (fibonacci_node 1 0)) = 1.005"
    by blast
qed

section \<open>The Fibonacci scene is built for a hundred nodes or more\<close>

text \<open>
  With draws in \<open>[0, 1)\<close> and at least 100 nodes, every sampled index is a node, so
  no step of \<open>initEarth\<close> throws. With fewer nodes \<open>%\<close> can give a negative index.
\<close>

lemma vec_at_range: "0 \<le> idx \<Longrightarrow> idx < int (length ps) \<Longrightarrow> vec_at ps idx = Inr (ps ! nat idx)"
  by (simp add: vec_at_def)

lemma data_arcs_total:
  assumes v: "valid_rng rnd" and n: "0 < length ps"
  shows "\<exists>r. data_arcs rnd ps k c = Inr r"
proof (induction k arbitrary: c)
  case 0
  show ?case by simp
next
  case (Suc k)
  let ?i1 = "random_index rnd c (length ps)"
  let ?i2 = "random_index rnd (c + 1) (length ps)"
  have a1: "vec_at ps ?i1 = Inr (ps ! nat ?i1)"
    using random_index_range [OF v n] by (rule vec_at_range)
  have a2: "vec_at ps ?i2 = Inr (ps ! nat ?i2)"
    using random_index_range [OF v n] by (rule vec_at_range)
  obtain r2 c2 where r2: "data_arcs rnd ps k (c + 2) = Inr (r2, c2)"
    using Suc.IH [of "c + 2"] by (metis surj_pair)
  obtain r4 c4 where r4: "data_arcs rnd ps k (c + 4) = Inr (r4, c4)"
    using Suc.IH [of "c + 4"] by (metis surj_pair)
  show ?case
    unfolding data_arcs.simps Let_def a1 a2 sum.case r2 r4 prod.case
    by (simp split: if_splits)
qed

lemma initEarth_fibonacci_total:
  assumes v: "valid_rng rnd" and n: "100 \<le> nodeCount"
  shows "\<exists>g. initEarth_fibonacci rnd nodeCount halfX halfY = Inr g"
proof -
  let ?ps = "fibonacci_nodes nodeCount"
  have l: "length ?ps = nodeCount" by (simp add: fibonacci_nodes_def)
  have n': "100 \<le> length ?ps" using n by (simp only: l)
  obtain segs c1 where s: "connect_close rnd ?ps (zip [0..<nodeCount] ?ps) 0 = Inr (segs, c1)"
    using connect_close_total [OF v n', of "zip [0..<nodeCount] ?ps" 0] by (metis surj_pair)
  have "0 < length ?ps" using n' by linarith
  then obtain arcs c2 where a: "data_arcs rnd ?ps arcCount c1 = Inr (arcs, c2)"
    using data_arcs_total [OF v, of ?ps arcCount c1] by (metis surj_pair)
  show ?thesis
    unfolding initEarth_fibonacci_def Let_def s sum.case prod.case a by blast
qed

section \<open>C7: what a skipped frame keeps\<close>

lemma recompute_curves_opacity:
  "recompute_curves nodes rot conns = Inr conns' \<Longrightarrow> map opacity conns' = map opacity conns"
proof (induction conns arbitrary: conns')
  case Nil
  then show ?case by simp
next
  case (Cons conn conns)
  from Cons.prems obtain c' rest where
    c: "recompute_curve nodes rot conn = Inr c'"
    and r: "recompute_curves nodes rot conns = Inr rest"
    and e: "conns' = c' # rest"
    by (auto split: sum.splits)
  have "opacity c' = opacity conn"
    using c by (auto simp: recompute_curve_def Let_def split: sum.splits)
  with Cons.IH [OF r] e show ?case by simp
qed

lemma animate_result:
  assumes "animate s = Inr s'"
  shows "time s' = time s + 0.01" and "frameCount s' = frameCount s + 1"
    and "positions s' = positions s"
    and "instances s' = map (animate_node ((frameCount s + 1) mod 2 = 0) (time s + 0.01)
                              (earth_rotation_y s + 0.002)) (positions s)"
    and "emissiveIntensity s' =
           (if (frameCount s + 1) mod 2 = 0 then 1.5 * (sin ((time s + 0.01) * 0.8) * 0.3 + 0.7)
            else emissiveIntensity s)"
    and "(frameCount s + 1) mod 2 \<noteq> 0 \<Longrightarrow>
           map opacity (connections s') = map opacity (connections s)"
proof -
  let ?f = "frameCount s + 1" and ?t = "time s + 0.01" and ?rot = "earth_rotation_y s + 0.002"
  define s1 where "s1 = s\<lparr>frameCount := ?f, time := ?t, earth_rotation_y := ?rot,
                 instances := map (animate_node (?f mod 2 = 0) ?t ?rot) (positions s),
                 emissiveIntensity :=
                   (if ?f mod 2 = 0 then 1.5 * (sin (?t * 0.8) * 0.3 + 0.7)
                    else emissiveIntensity s)\<rparr>"
  define s2 where "s2 = (if ?f mod 2 = 0
                then s1\<lparr>connections := map (pulse_connection ?t) (connections s1)\<rparr>
                else s1)"
  have an: "animate s =
      (if ?f mod 3 = 0 then
           (case recompute_curves (positions s2) ?rot (connections s2) of
              Inl e \<Rightarrow> Inl e
            | Inr conns \<Rightarrow> Inr (s2\<lparr>connections := conns\<rparr>))
         else Inr s2)"
    unfolding animate_def Let_def s2_def s1_def ..
  have p2: "positions s2 = positions s" "frameCount s2 = ?f" "time s2 = ?t"
    "instances s2 = map (animate_node (?f mod 2 = 0) ?t ?rot) (positions s)"
    "emissiveIntensity s2 = (if ?f mod 2 = 0 then 1.5 * (sin (?t * 0.8) * 0.3 + 0.7)
            else emissiveIntensity s)"
    "?f mod 2 \<noteq> 0 \<Longrightarrow> connections s2 = connections s"
    by (simp_all add: s2_def s1_def)
  obtain conns where s': "s' = s2 \<or> (s' = s2\<lparr>connections := conns\<rparr> \<and>
      recompute_curves (positions s2) ?rot (connections s2) = Inr conns)"
    using assms unfolding an by (auto split: if_splits sum.splits)
  then have same: "time s' = time s2" "frameCount s' = frameCount s2" "positions s' = positions s2"
    "instances s' = instances s2" "emissiveIntensity s' = emissiveIntensity s2"
    "map opacity (connections s') = map opacity (connections s2)"
    using recompute_curves_opacity by auto
  show "time s' = time s + 0.01" "frameCount s' = frameCount s + 1"
    "positions s' = positions s"
    "instances s' = map (animate_node ((frameCount s + 1) mod 2 = 0) (time s + 0.01)
                              (earth_rotation_y s + 0.002)) (positions s)"
    "emissiveIntensity s' =
           (if (frameCount s + 1) mod 2 = 0 then 1.5 * (sin ((time s + 0.01) * 0.8) * 0.3 + 0.7)
            else emissiveIntensity s)"
    by (simp_all only: same p2)
  show "map opacity (connections s') = map opacity (connections s)"
    if "(frameCount s + 1) mod 2 \<noteq> 0"
    using p2(6) [OF that] by (simp only: same)
qed

lemma zero_draws_node:
  "fst (random_nodes zero_draws 0 0 1) = [random_node zero_draws 0 0]"
  "pulsePhase (random_node zero_draws 0 0) = 0"
  "pulseSpeed (random_node zero_draws 0 0) = 0.3"
  by (simp_all add: random_node_def zero_draws_def Let_def)

text \<open>
  C7 (as amended). On a frame that the pulse throttle skips (an odd frame count), the
  emissive intensity of the node material keeps its stale value and the opacity of every
  connection is unchanged; the matrix of every node is rebuilt all the same, with the
  pulse factor 1.0, so the scale of every node is set to \<open>0.01 * 1.0\<close> and not kept.
\<close>

theorem skipped_frame:
  assumes "animate s = Inr s'" and "(frameCount s + 1) mod 2 \<noteq> 0"
  shows "emissiveIntensity s' = emissiveIntensity s \<and>
         map opacity (connections s') = map opacity (connections s) \<and>
         (\<forall>m \<in> set (instances s'). scale m = 0.01 * 1.0)"
proof -
  note r = animate_result [OF assms(1)]
  have "emissiveIntensity s' = emissiveIntensity s"
    using assms(2) by (simp only: r(5) if_False)
  moreover have "map opacity (connections s') = map opacity (connections s)"
    using assms(2) by (rule r(6))
  moreover have "\<forall>m \<in> set (instances s'). scale m = 0.01 * 1.0"
    using assms(2) by (auto simp: r(4) animate_node_def Let_def)
  ultimately show ?thesis by blast
qed


theorem skipped_frame_witness:
  "\<exists>s s'. initEarth zero_draws 1 = Inr s \<and> animate s = Inr s' \<and>
     (frameCount s + 1) mod 2 \<noteq> 0 \<and>
     emissiveIntensity s' = emissiveIntensity s \<and>
     map opacity (connections s') = map opacity (connections s) \<and>
     map scale (instances s') = [0.01 * 1.0]"
proof -
  obtain s where s: "initEarth zero_draws 1 = Inr s"
    using initEarth_total [OF zero_draws_valid, of 1] by auto
  note fr = initEarth_fresh [OF s]
  obtain s' where a: "animate s = Inr s'"
    using animate_step [OF fr(6)] by blast
  have odd: "(frameCount s + 1) mod 2 \<noteq> 0" by (simp add: fr(1))
  note T = skipped_frame [OF a odd]
  have "length (instances s') = 1"
    by (simp add: animate_result(4) [OF a] fr(4) zero_draws_node)
  then obtain m where m: "instances s' = [m]"
    by (cases "instances s'") auto
  with T have sc: "map scale (instances s') = [0.01 * 1.0]" by simp
  from T have e: "emissiveIntensity s' = emissiveIntensity s"
    and o: "map opacity (connections s') = map opacity (connections s)"
    by (rule conjunct1, rule conjunct2 [THEN conjunct1])
  show ?thesis
    by (intro exI [of _ s] exI [of _ s'] conjI) (rule s a odd e o sc)+
qed

text \<open>
  The claim as stated says that no node scale is reset on a skipped frame. From the scene
  built for one node with zero draws, frame 2 computes the scale
  \<open>0.01 * (sin 0.006 * 0.4 + 0.6)\<close>, and frame 3, a skipped one, replaces it by \<open>0.01\<close>.
\<close>

theorem skipped_frame_resets_scale:
  "\<exists>s s2 s3. initEarth zero_draws 1 = Inr s \<and> frames 2 s = Inr s2 \<and> animate s2 = Inr s3 \<and>
     (frameCount s2 + 1) mod 2 \<noteq> 0 \<and>
     map scale (instances s3) \<noteq> map scale (instances s2)"
proof -
  obtain s where s: "initEarth zero_draws 1 = Inr s"
    using initEarth_total [OF zero_draws_valid, of 1] by auto
  note fr = initEarth_fresh [OF s]
  obtain s1 where a1: "animate s = Inr s1" and wf1: "scene_wf s1"
    using animate_step [OF fr(6)] by blast
  obtain s2 where a2: "animate s1 = Inr s2" and wf2: "scene_wf s2"
    using animate_step [OF wf1] by blast
  obtain s3 where a3: "animate s2 = Inr s3"
    using animate_step [OF wf2] by blast
  note r1 = animate_result [OF a1] and r2 = animate_result [OF a2] and r3 = animate_result [OF a3]
  have f2: "frames 2 s = Inr s2"
    by (simp add: numeral_2_eq_2 a1 a2)
  have c1: "frameCount s1 = 1" "time s1 = 0.01" "positions s1 = [random_node zero_draws 0 0]"
    by (simp_all add: r1 fr zero_draws_node)
  have c2: "frameCount s2 = 2" "positions s2 = [random_node zero_draws 0 0]"
    by (simp_all add: r2 c1)
  have i2: "map scale (instances s2) = [0.01 * (sin (0.006) * 0.4 + 0.6)]"
    by (simp add: r2(4) c1 animate_node_def Let_def zero_draws_node)
  have i3: "map scale (instances s3) = [0.01 * 1.0]"
    by (simp add: r3(4) c2 animate_node_def Let_def)
  have "sin (0.006 :: real) \<le> 0.006" by (rule sin_x_le_x) simp
  then have "sin (0.006 :: real) * 0.4 + 0.6 < 1.0" by simp
  then have ne: "map scale (instances s3) \<noteq> map scale (instances s2)"
    by (simp add: i2 i3)
  have odd: "(frameCount s2 + 1) mod 2 \<noteq> 0" by (simp add: c2)
  show ?thesis
    by (intro exI [of _ s] exI [of _ s2] exI [of _ s3] conjI) (rule s f2 a3 odd ne)+
qed

section \<open>C8: the texture fallback\<close>

lemma earth_undeclared: "scope_fibonacci ''earth'' = None"
  by (simp add: scope_fibonacci_def top_level_fibonacci_def)

lemma texture_error_random:
  "on_texture_error (scope_random (Some s)) =
     Inr (scope_random (Some (s\<lparr>earth_material :=
            (earth_material s)\<lparr>color := 2241535, emissive := 1122884\<rparr>\<rparr>)))"
  by (simp add: on_texture_error_def scope_random_def)

lemma texture_error_random_unbuilt:
  "on_texture_error (scope_random None) = Inr (scope_random None)"
  by (simp add: on_texture_error_def scope_random_def)

text \<open>
  C8. When the texture fetch fails, the error callback should put the fallback colours on
  the Earth material and throw nothing. In the uniform-random variant it does, and the
  rest of the scope is unchanged (\<open>texture_error_random\<close>). In the Fibonacci variant the
  name \<open>earth\<close> is not declared, so the callback throws a ReferenceError and changes no
  material.
\<close>

theorem texture_error_throws:
  "on_texture_error scope_fibonacci = Inl ReferenceError"
  by (simp add: on_texture_error_def earth_undeclared)

section \<open>C9: smoothing of the x-rotation\<close>

lemma gap_step:
  "mouseY g * 0.05 - rotation_x (animate_fibonacci g)
     = (1 - 0.05) * (mouseY g * 0.05 - rotation_x g)"
  by (simp add: animate_fibonacci_fields algebra_simps)

lemma gap_iter:
  "mouseY g * 0.05 - rotation_x ((animate_fibonacci ^^ n) g)
     = (1 - 0.05) ^ n * (mouseY g * 0.05 - rotation_x g)"
proof (induction n)
  case 0
  show ?case by simp
next
  case (Suc n)
  have "mouseY g * 0.05 - rotation_x ((animate_fibonacci ^^ Suc n) g)
      = mouseY ((animate_fibonacci ^^ n) g) * 0.05
          - rotation_x (animate_fibonacci ((animate_fibonacci ^^ n) g))"
    by (simp only: funpow.simps o_apply animate_fibonacci_iter)
  also have "\<dots> = (1 - 0.05) * (mouseY ((animate_fibonacci ^^ n) g) * 0.05
          - rotation_x ((animate_fibonacci ^^ n) g))"
    by (rule gap_step)
  also have "\<dots> = (1 - 0.05) * ((1 - 0.05) ^ n * (mouseY g * 0.05 - rotation_x g))"
    by (simp only: animate_fibonacci_iter Suc.IH)
  finally show ?case by simp
qed

lemma rotation_x_limit:
  "(\<lambda>n. rotation_x ((animate_fibonacci ^^ n) g)) \<longlonglongrightarrow> mouseY g * 0.05"
proof -
  have "(\<lambda>n. (1 - 0.05 :: real) ^ n) \<longlonglongrightarrow> 0"
    by (rule LIMSEQ_realpow_zero) simp_all
  then have "(\<lambda>n. (1 - 0.05) ^ n * (mouseY g * 0.05 - rotation_x g)) \<longlonglongrightarrow> 0"
    by (rule tendsto_mult_left_zero)
  then have "(\<lambda>n. mouseY g * 0.05 - (1 - 0.05) ^ n * (mouseY g * 0.05 - rotation_x g))
      \<longlonglongrightarrow> mouseY g * 0.05 - 0"
    by (intro tendsto_diff tendsto_const)
  moreover have "rotation_x ((animate_fibonacci ^^ n) g)
      = mouseY g * 0.05 - (1 - 0.05) ^ n * (mouseY g * 0.05 - rotation_x g)" for n
    using gap_iter [of g n] by simp
  ultimately show ?thesis by simp
qed









section \<open>C10: the ripple at distance zero\<close>

lemma ripple_zero_distance:
  "sqrt (dx * dx + dy * dy) = 0 \<Longrightarrow> dx = 0 \<and> dy = 0" for dx dy :: real
proof -
  assume "sqrt (dx * dx + dy * dy) = 0"
  then have "dx\<^sup>2 + dy\<^sup>2 = 0" by (simp add: power2_eq_square)
  then show ?thesis by (simp add: sum_power2_eq_zero_iff)
qed

lemma ripple_star_coincide:
  assumes "initX st = cx" and "initY st = cy"
  shows "nan_star (ripple_star cx cy st)"
  using assms by (simp add: ripple_star_def ripple_quotient_def nan_star_def Let_def)

lemma ripple_star_nan:
  assumes "nan_star st"
  shows "nan_star (ripple_star cx cy st)"
  using assms by (simp add: ripple_star_def nan_star_def Let_def)

lemma ripple_star_init:
  "initX (ripple_star cx cy st) = initX st" "initY (ripple_star cx cy st) = initY st"
  by (simp_all add: ripple_star_def Let_def)

lemma animate_fibonacci_stars:
  "stars (animate_fibonacci g) = map (ripple_star (mouseX g * 15) (- mouseY g * 10)) (stars g)"
  by (simp add: animate_fibonacci_def Let_def)

lemma mousemove_stars: "stars (mousemove x y g) = stars g"
  by (simp add: mousemove_def)

lemma run_keeps_nan:
  "i < length (stars g) \<Longrightarrow> nan_star (stars g ! i) \<Longrightarrow>
   i < length (stars (run es g)) \<and> nan_star (stars (run es g) ! i)"
proof (induction es arbitrary: g)
  case Nil
  then show ?case by simp
next
  case (Cons e es)
  show ?case
  proof (cases e)
    case Frame
    have "i < length (stars (animate_fibonacci g))"
      "nan_star (stars (animate_fibonacci g) ! i)"
      using Cons.prems by (simp_all add: animate_fibonacci_stars ripple_star_nan)
    then show ?thesis using Cons.IH Frame by simp
  next
    case (Move x y)
    have "i < length (stars (mousemove x y g))" "nan_star (stars (mousemove x y g) ! i)"
      using Cons.prems by (simp_all add: mousemove_stars)
    then show ?thesis using Cons.IH Move by simp
  qed
qed

lemma make_stars_first:
  "0 < k \<Longrightarrow> make_stars rnd c k \<noteq> [] \<and> make_stars rnd c k ! 0 = make_star rnd c"
  by (cases k) simp_all

lemma half_scan:
  "scan_node half_draws [p] 0 p 30 0 c = Inr ([], c + 30)"
  by (simp add: eval_nat_numeral js_rem_def half_draws_def Let_def)

lemma half_arcs:
  "data_arcs half_draws [p] 30 c = Inr ([], c + 60)"
  by (simp add: eval_nat_numeral random_index_def half_draws_def Let_def)

lemma half_globe:
  "\<exists>g. initEarth_fibonacci half_draws 1 0 0 = Inr g \<and> stars g = make_stars half_draws 90 starCount"
  by (simp add: initEarth_fibonacci_def fibonacci_nodes_def Let_def half_scan half_arcs arcCount_def)

text \<open>
  C10. The ripple divides the displacement from a star to the cursor by its length under
  the only guard \<open>dist < 3.0\<close>. When the cursor mapped to world space,
  \<open>(mouseX * 15, - mouseY * 10)\<close>, is exactly the base position of a star, the distance
  is zero, the guard passes, the quotient is \<open>0 / 0 = NaN\<close>, and the velocity and the buffered
  position of that star are NaN after that frame and after every later frame, wherever the
  pointer moves in between.
\<close>

theorem ripple_nan_forever:
  assumes "i < length (stars g)"
    and "initX (stars g ! i) = mouseX g * 15" and "initY (stars g ! i) = - mouseY g * 10"
  shows "sqrt ((mouseX g * 15 - initX (stars g ! i)) * (mouseX g * 15 - initX (stars g ! i))
             + (- mouseY g * 10 - initY (stars g ! i)) * (- mouseY g * 10 - initY (stars g ! i)))
           < 3.0 \<and>
         ripple_quotient (mouseX g * 15 - initX (stars g ! i)) 0 = NaN \<and>
         (\<forall>es. velX (stars (run es (animate_fibonacci g)) ! i) = NaN \<and>
               velY (stars (run es (animate_fibonacci g)) ! i) = NaN \<and>
               posX (stars (run es (animate_fibonacci g)) ! i) = NaN \<and>
               posY (stars (run es (animate_fibonacci g)) ! i) = NaN)"
proof (intro conjI allI)
  show "sqrt ((mouseX g * 15 - initX (stars g ! i)) * (mouseX g * 15 - initX (stars g ! i))
             + (- mouseY g * 10 - initY (stars g ! i)) * (- mouseY g * 10 - initY (stars g ! i)))
           < 3.0"
    by (simp add: assms(2,3))
  show "ripple_quotient (mouseX g * 15 - initX (stars g ! i)) 0 = NaN"
    by (simp add: ripple_quotient_def)
next
  fix es
  have l: "i < length (stars (animate_fibonacci g))"
    using assms(1) by (simp add: animate_fibonacci_stars)
  have n: "nan_star (stars (animate_fibonacci g) ! i)"
    using assms by (simp add: animate_fibonacci_stars ripple_star_coincide)
  from run_keeps_nan [OF l n, of es] have "nan_star (stars (run es (animate_fibonacci g)) ! i)"
    by simp
  then show "velX (stars (run es (animate_fibonacci g)) ! i) = NaN"
    "velY (stars (run es (animate_fibonacci g)) ! i) = NaN"
    "posX (stars (run es (animate_fibonacci g)) ! i) = NaN"
    "posY (stars (run es (animate_fibonacci g)) ! i) = NaN"
    by (simp_all add: nan_star_def)
qed

theorem ripple_nan_forever_witness:
  "\<exists>g. initEarth_fibonacci half_draws 1 0 0 = Inr g \<and> 0 < length (stars g) \<and>
     initX (stars g ! 0) = mouseX g * 15 \<and> initY (stars g ! 0) = - mouseY g * 10 \<and>
     velX (stars (run [Frame, Move 7 9, Frame] (animate_fibonacci g)) ! 0) = NaN \<and>
     posX (stars (run [Frame, Move 7 9, Frame] (animate_fibonacci g)) ! 0) = NaN"
proof -
  obtain g where g: "initEarth_fibonacci half_draws 1 0 0 = Inr g"
    and st: "stars g = make_stars half_draws 90 starCount"
    using half_globe by blast
  note fr = initEarth_fibonacci_fresh [OF g]
  have first: "stars g \<noteq> []" "stars g ! 0 = make_star half_draws 90"
    using make_stars_first [of starCount half_draws 90] by (simp_all add: st starCount_def)
  have l: "0 < length (stars g)" using first(1) by simp
  have x: "initX (stars g ! 0) = mouseX g * 15" and y: "initY (stars g ! 0) = - mouseY g * 10"
    by (simp_all add: first(2) make_star_def half_draws_def Let_def fr)
  note T = ripple_nan_forever [OF l x y]
  from T have "velX (stars (run [Frame, Move 7 9, Frame] (animate_fibonacci g)) ! 0) = NaN"
    "posX (stars (run [Frame, Move 7 9, Frame] (animate_fibonacci g)) ! 0) = NaN"
    by blast+
  with g l x y show ?thesis by blast
qed


end
